theory Spec2Isabelle
  imports Complex_Main
begin

section \<open>The detection loop of RTSID.py\<close>

text \<open>
  The development embeds \<open>ImageWatch.__init__\<close> and \<open>MonitorThread.run\<close>.
  Everything the loop obtains from outside the program (the screen, OpenCV, the OCR
  engine, the input and notification backends, the clock, the shared \<open>running\<close> flag)
  is an input of the model: the outcome of each external call, as that call returned or
  raised. Python floats are modelled as reals (no NaN, no infinity, no rounding); pixel
  contents are read by external calls only, so an image is represented by its shape.
\<close>

subsection \<open>Data\<close>

datatype 'a outcome = Raises string | Returns 'a

record image =
  rows :: nat
  cols :: nat

text \<open>The capture rectangle: the dictionary with keys left, top, width and height.\<close>

record monitor =
  m_left :: int
  m_top :: int
  m_width :: int
  m_height :: int

record ImageWatch =
  path :: string
  template :: "image option"
  h :: nat
  w :: nat
  threshold :: real
  region :: "(int \<times> int \<times> int \<times> int) option"
  move_mouse :: bool
  mouse_speed :: real
  click :: bool
  press_key :: "string option"
  notify :: bool
  sound :: "string option"
  window_title :: "string option"
  mask :: "image option"
  mask_path :: "string option"
  ocr_fallback :: bool
  triggered :: bool

text \<open>
  \<open>ImageWatch.__init__\<close>: the argument \<open>img\<close> is what \<open>cv2.imread\<close> returned
  (\<open>None\<close> when the file does not decode); the grayscale template has the shape of
  the decoded image.
\<close>

definition ImageWatch_init :: "string \<Rightarrow> image option \<Rightarrow> ImageWatch" where
  "ImageWatch_init p img =
     \<lparr> path = p,
       template = img,
       h = (case img of None \<Rightarrow> 0 | Some t \<Rightarrow> rows t),
       w = (case img of None \<Rightarrow> 0 | Some t \<Rightarrow> cols t),
       threshold = 0.8,
       region = None,
       move_mouse = False,
       mouse_speed = 0,
       click = False,
       press_key = None,
       notify = False,
       sound = None,
       window_title = None,
       mask = None,
       mask_path = None,
       ocr_fallback = False,
       triggered = False \<rparr>"

text \<open>Every external call the loop makes, and the reads of the shared flag.\<close>

datatype event =
    ReadRunning bool
  | Grab monitor
  | CvtColor
  | MatchTemplate bool
  | ImageToString string
  | MoveTo int int real
  | Click
  | Press string
  | ShowToast string
  | PlaySound string
  | BringToForeground string
  | ErrorEmit string
  | Sleep real

fun is_action :: "event \<Rightarrow> bool" where
  "is_action (MoveTo x y d) = True"
| "is_action Click = True"
| "is_action (Press k) = True"
| "is_action (ShowToast p) = True"
| "is_action (PlaySound f) = True"
| "is_action (BringToForeground t) = True"
| "is_action e = False"

fun is_error :: "event \<Rightarrow> bool" where
  "is_error (ErrorEmit m) = True"
| "is_error e = False"

fun is_ocr :: "event \<Rightarrow> bool" where
  "is_ocr (ImageToString l) = True"
| "is_ocr e = False"

fun is_read :: "event \<Rightarrow> bool" where
  "is_read (ReadRunning b) = True"
| "is_read e = False"

fun is_move :: "event \<Rightarrow> bool" where
  "is_move (MoveTo x y d) = True"
| "is_move e = False"

fun is_sleep :: "event \<Rightarrow> bool" where
  "is_sleep (Sleep d) = True"
| "is_sleep e = False"

text \<open>The time a trace asks \<open>time.sleep\<close> for.\<close>

fun slept :: "event list \<Rightarrow> real" where
  "slept [] = 0"
| "slept (Sleep d # evs) = d + slept evs"
| "slept (e # evs) = slept evs"

text \<open>
  What one watch meets in one tick: the outcome of each external call, should the loop
  make it. \<open>match_out\<close> is \<open>cv2.matchTemplate\<close> followed by \<open>cv2.minMaxLoc\<close>:
  the best score and its location.
\<close>

record obs =
  monitors_1 :: "monitor outcome"
  grab_out :: "image outcome"
  cvtColor_out :: "unit outcome"
  match_out :: "(real \<times> int \<times> int) outcome"
  ocr_out :: "string outcome"
  moveTo_out :: "unit outcome"
  click_out :: "unit outcome"
  press_out :: "unit outcome"
  toast_out :: "unit outcome"
  sound_out :: "unit outcome"
  window_out :: "unit outcome"

subsection \<open>Strings\<close>

text \<open>\<open>str.lower\<close> on ASCII text and the substring test \<open>sub in s\<close>.\<close>

definition lower_char :: "char \<Rightarrow> char" where
  "lower_char c =
     (let n = (of_char c :: nat) in if 65 \<le> n \<and> n \<le> 90 then char_of (n + 32) else c)"

definition lower :: "string \<Rightarrow> string" where
  "lower s = map lower_char s"

fun starts_with :: "string \<Rightarrow> string \<Rightarrow> bool" where
  "starts_with [] s = True"
| "starts_with (a # sub) [] = False"
| "starts_with (a # sub) (c # s) = (a = c \<and> starts_with sub s)"

fun contains :: "string \<Rightarrow> string \<Rightarrow> bool" where
  "contains sub [] = (sub = [])"
| "contains sub (c # s) = (starts_with sub (c # s) \<or> contains sub s)"

text \<open>Truthiness of an optional string (\<open>None\<close> and the empty string are false).\<close>

fun truthy :: "string option \<Rightarrow> bool" where
  "truthy None = False"
| "truthy (Some s) = (s \<noteq> [])"

fun str_of :: "string option \<Rightarrow> string" where
  "str_of None = []"
| "str_of (Some s) = s"

subsection \<open>One watch in one tick\<close>

text \<open>Lines 86 to 90: the configured region as a capture rectangle, or monitor 1.\<close>

definition select_mon :: "ImageWatch \<Rightarrow> obs \<Rightarrow> monitor outcome" where
  "select_mon item ob =
     (case region item of
        Some (x, y, rw, rh) \<Rightarrow>
          Returns \<lparr> m_left = x, m_top = y, m_width = rw, m_height = rh \<rparr>
      | None \<Rightarrow> monitors_1 ob)"

text \<open>
  Lines 103 to 109, once the matcher has returned: the comparison with the threshold and
  the OCR fallback. The result is \<open>found\<close> and \<open>max_loc\<close>, or the exception of the
  OCR call, with the calls made.
\<close>

definition decide ::
  "string \<Rightarrow> ImageWatch \<Rightarrow> obs \<Rightarrow> monitor \<Rightarrow> real \<Rightarrow> int \<times> int
     \<Rightarrow> (bool \<times> int \<times> int) outcome \<times> event list" where
  "decide lang item ob mon max_val max_loc =
     (let found = (max_val \<ge> threshold item) in
      if \<not> found \<and> ocr_fallback item then
        (case ocr_out ob of
           Raises e \<Rightarrow> (Raises e, [ImageToString lang])
         | Returns text \<Rightarrow>
             if contains ''skip'' (lower text)
             then (Returns (True, m_width mon div 2, m_height mon div 2), [ImageToString lang])
             else (Returns (found, max_loc), [ImageToString lang]))
      else (Returns (found, max_loc), []))"

text \<open>
  Lines 86 to 109. \<open>Returns None\<close> is the \<open>continue\<close> of an undecoded template;
  \<open>Raises\<close> is an exception on its way to the handler of line 134.
\<close>

definition detect ::
  "string \<Rightarrow> ImageWatch \<Rightarrow> obs
     \<Rightarrow> (monitor \<times> bool \<times> int \<times> int) option outcome \<times> event list" where
  "detect lang item ob =
     (case select_mon item ob of
        Raises e \<Rightarrow> (Raises e, [])
      | Returns mon \<Rightarrow>
     (case grab_out ob of
        Raises e \<Rightarrow> (Raises e, [Grab mon])
      | Returns frame \<Rightarrow>
     (case cvtColor_out ob of
        Raises e \<Rightarrow> (Raises e, [Grab mon, CvtColor])
      | Returns u \<Rightarrow>
     (case template item of
        None \<Rightarrow> (Returns None, [Grab mon, CvtColor])
      | Some t \<Rightarrow>
     (case match_out ob of
        Raises e \<Rightarrow> (Raises e, [Grab mon, CvtColor, MatchTemplate (mask item \<noteq> None)])
      | Returns (max_val, max_loc) \<Rightarrow>
     (case decide lang item ob mon max_val max_loc of
        (Raises e, evs) \<Rightarrow>
          (Raises e, [Grab mon, CvtColor, MatchTemplate (mask item \<noteq> None)] @ evs)
      | (Returns (found, loc), evs) \<Rightarrow>
          (Returns (Some (mon, found, loc)),
           [Grab mon, CvtColor, MatchTemplate (mask item \<noteq> None)] @ evs)))))))"

text \<open>
  Lines 115 to 131: six guarded calls in sequence. Each entry is the guard, the call and
  its outcome; the first call that raises ends the sequence.
\<close>

fun run_actions :: "(bool \<times> event \<times> unit outcome) list \<Rightarrow> unit outcome \<times> event list" where
  "run_actions [] = (Returns (), [])"
| "run_actions ((enabled, ev, out) # rest) =
     (if enabled then
        (case out of
           Raises e \<Rightarrow> (Raises e, [ev])
         | Returns u \<Rightarrow> (case run_actions rest of (r, evs) \<Rightarrow> (r, ev # evs)))
      else run_actions rest)"

definition actions :: "ImageWatch \<Rightarrow> obs \<Rightarrow> int \<Rightarrow> int \<Rightarrow> (bool \<times> event \<times> unit outcome) list" where
  "actions item ob cx cy =
     [(move_mouse item, MoveTo cx cy (mouse_speed item), moveTo_out ob),
      (click item, Click, click_out ob),
      (truthy (press_key item), Press (str_of (press_key item)), press_out ob),
      (notify item, ShowToast (path item), toast_out ob),
      (truthy (sound item), PlaySound (str_of (sound item)), sound_out ob),
      (truthy (window_title item), BringToForeground (str_of (window_title item)), window_out ob)]"

text \<open>The body of the \<open>for\<close> loop, lines 85 to 135, with its exception handler.\<close>

definition process_item :: "string \<Rightarrow> ImageWatch \<Rightarrow> obs \<Rightarrow> ImageWatch \<times> event list" where
  "process_item lang item ob =
     (case detect lang item ob of
        (Raises e, evs) \<Rightarrow> (item, evs @ [ErrorEmit e])
      | (Returns None, evs) \<Rightarrow> (item, evs)
      | (Returns (Some (mon, found, x, y)), evs) \<Rightarrow>
          if found \<and> \<not> triggered item then
            (let cx = m_left mon + x + int (w item) div 2;
                 cy = m_top mon + y + int (h item) div 2
             in case run_actions (actions item ob cx cy) of
                  (Raises e, evs2) \<Rightarrow> (item\<lparr>triggered := True\<rparr>, evs @ evs2 @ [ErrorEmit e])
                | (Returns u, evs2) \<Rightarrow> (item\<lparr>triggered := True\<rparr>, evs @ evs2))
          else if \<not> found then (item\<lparr>triggered := False\<rparr>, evs)
          else (item, evs))"

subsection \<open>The loop\<close>

text \<open>Line 84: every watch of the snapshot in turn; watch \<open>i\<close> meets \<open>obf i\<close>.\<close>

fun for_items :: "string \<Rightarrow> (nat \<Rightarrow> obs) \<Rightarrow> nat \<Rightarrow> ImageWatch list \<Rightarrow> ImageWatch list \<times> event list" where
  "for_items lang obf i [] = ([], [])"
| "for_items lang obf i (item # rest) =
     (case process_item lang item (obf i) of (item', evs) \<Rightarrow>
      case for_items lang obf (Suc i) rest of (rest', evs') \<Rightarrow>
        (item' # rest', evs @ evs'))"

text \<open>Lines 136 to 138.\<close>

definition pace :: "real \<Rightarrow> real \<Rightarrow> real \<Rightarrow> event list" where
  "pace interval start now =
     (let elapsed = now - start in
      if elapsed < interval then [Sleep (interval - elapsed)] else [])"

record MonitorThread =
  watch_list :: "ImageWatch list"
  interval :: real
  ocr_lang :: string

text \<open>
  What one iteration of the \<open>while\<close> loop meets: the value of \<open>self.running\<close> read by
  the loop test, the two clock readings and the observations of the watches.
\<close>

record tick_obs =
  running_read :: bool
  start_time :: real
  item_obs :: "nat \<Rightarrow> obs"
  end_time :: real

text \<open>Lines 83 to 138: one iteration whose loop test has passed.\<close>

definition tick :: "MonitorThread \<Rightarrow> tick_obs \<Rightarrow> MonitorThread \<times> event list" where
  "tick st t =
     (case for_items (ocr_lang st) (item_obs t) 0 (watch_list st) of (ws, evs) \<Rightarrow>
        (st\<lparr>watch_list := ws\<rparr>, evs @ pace (interval st) (start_time t) (end_time t)))"

text \<open>
  Lines 82 to 138. The list of iterations met is the fuel of the loop: the third
  component tells whether \<open>run\<close> returned within it.
\<close>

fun run :: "MonitorThread \<Rightarrow> tick_obs list \<Rightarrow> MonitorThread \<times> event list \<times> bool" where
  "run st [] = (st, [], False)"
| "run st (t # ts) =
     (if running_read t then
        (case tick st t of (st', evs) \<Rightarrow>
         case run st' ts of (st'', evs', r) \<Rightarrow> (st'', ReadRunning True # evs @ evs', r))
      else (st, [ReadRunning False], True))"

text \<open>
  The same watch over consecutive ticks: for each tick, the armed flag after it and the
  action calls made in it.
\<close>

fun watch_ticks :: "string \<Rightarrow> ImageWatch \<Rightarrow> obs list \<Rightarrow> (bool \<times> event list) list" where
  "watch_ticks lang item [] = []"
| "watch_ticks lang item (ob # obs) =
     (case process_item lang item ob of (item', evs) \<Rightarrow>
        (triggered item', filter is_action evs) # watch_ticks lang item' obs)"

subsection \<open>Observers used in the statements\<close>

text \<open>The value of \<open>found\<close> at line 110, when the tick of the watch gets there.\<close>

definition found_on :: "string \<Rightarrow> ImageWatch \<Rightarrow> obs \<Rightarrow> bool" where
  "found_on lang item ob =
     (case fst (detect lang item ob) of
        Returns (Some (mon, found, loc)) \<Rightarrow> found
      | Returns None \<Rightarrow> False
      | Raises e \<Rightarrow> False)"

definition lost_on :: "string \<Rightarrow> ImageWatch \<Rightarrow> obs \<Rightarrow> bool" where
  "lost_on lang item ob =
     (case fst (detect lang item ob) of
        Returns (Some (mon, found, loc)) \<Rightarrow> \<not> found
      | Returns None \<Rightarrow> False
      | Raises e \<Rightarrow> False)"

text \<open>The calls of a firing in which no call raises: the configured actions, in order.\<close>

definition configured :: "ImageWatch \<Rightarrow> int \<Rightarrow> int \<Rightarrow> event list" where
  "configured item cx cy =
     (if move_mouse item then [MoveTo cx cy (mouse_speed item)] else []) @
     (if click item then [Click] else []) @
     (if truthy (press_key item) then [Press (str_of (press_key item))] else []) @
     (if notify item then [ShowToast (path item)] else []) @
     (if truthy (sound item) then [PlaySound (str_of (sound item))] else []) @
     (if truthy (window_title item) then [BringToForeground (str_of (window_title item))] else [])"

text \<open>
  A tick in which every call returns: monitor 1 is \<open>m\<close>, the captured frame is
  \<open>fr\<close>, the best score is \<open>s\<close> at \<open>loc\<close>, and the OCR engine reads \<open>tx\<close>.
\<close>

definition plain_obs :: "monitor \<Rightarrow> image \<Rightarrow> real \<Rightarrow> int \<times> int \<Rightarrow> string \<Rightarrow> obs" where
  "plain_obs m fr s loc tx =
     \<lparr> monitors_1 = Returns m,
       grab_out = Returns fr,
       cvtColor_out = Returns (),
       match_out = Returns (s, loc),
       ocr_out = Returns tx,
       moveTo_out = Returns (),
       click_out = Returns (),
       press_out = Returns (),
       toast_out = Returns (),
       sound_out = Returns (),
       window_out = Returns () \<rparr>"

text \<open>No action backend raises.\<close>

definition actions_return :: "obs \<Rightarrow> bool" where
  "actions_return ob =
     (moveTo_out ob = Returns () \<and> click_out ob = Returns () \<and> press_out ob = Returns () \<and>
      toast_out ob = Returns () \<and> sound_out ob = Returns () \<and> window_out ob = Returns ())"

subsection \<open>A concrete thread\<close>

text \<open>
  One watch on a 20 by 20 template with the region (0, 0, 100, 100), pointer move and
  click configured, in a thread with the default interval and language, on a monitor of
  1920 by 1080.
\<close>

definition ex_monitor :: monitor where
  "ex_monitor = \<lparr> m_left = 0, m_top = 0, m_width = 1920, m_height = 1080 \<rparr>"

definition ex_watch :: ImageWatch where
  "ex_watch = (ImageWatch_init ''skip.png'' (Some \<lparr> rows = 20, cols = 20 \<rparr>))
                \<lparr> region := Some (0, 0, 100, 100), move_mouse := True, click := True \<rparr>"

definition ex_thread :: MonitorThread where
  "ex_thread = \<lparr> watch_list = [ex_watch], interval = 0.1, ocr_lang = ''eng'' \<rparr>"

text \<open>The capture rectangle of the region of that watch, and a frame captured from it.\<close>

definition ex_region :: monitor where
  "ex_region = \<lparr> m_left = 0, m_top = 0, m_width = 100, m_height = 100 \<rparr>"

definition ex_frame :: image where
  "ex_frame = \<lparr> rows = 100, cols = 100 \<rparr>"

text \<open>
  An iteration of that thread whose loop test passes, between the clock readings \<open>t0\<close>
  and \<open>t1\<close>, with the best score \<open>s\<close> at (40, 40) and nothing read by the OCR engine.
\<close>

definition ex_tick :: "real \<Rightarrow> real \<Rightarrow> real \<Rightarrow> tick_obs" where
  "ex_tick s t0 t1 =
     \<lparr> running_read = True, start_time = t0,
       item_obs = (\<lambda>i. plain_obs ex_monitor ex_frame s (40, 40) ''''), end_time = t1 \<rparr>"

text \<open>
  A watch whose image did not decode, with OCR fallback and click configured, and a
  frame of the whole monitor, which it captures for want of a region.
\<close>

definition ex_screen :: image where
  "ex_screen = \<lparr> rows = 1080, cols = 1920 \<rparr>"

definition ex_inert :: ImageWatch where
  "ex_inert = (ImageWatch_init ''gone.png'' None)\<lparr> ocr_fallback := True, click := True \<rparr>"

text \<open>The pointer backend refuses the move (the pyautogui fail-safe).\<close>

definition ex_move_fails :: obs where
  "ex_move_fails = (plain_obs ex_monitor ex_frame 0.85 (40, 40) '''')\<lparr> moveTo_out := Raises ''fail-safe'' \<rparr>"

text \<open>The click is refused after the pointer has moved.\<close>

definition ex_click_fails :: obs where
  "ex_click_fails = (plain_obs ex_monitor ex_frame 0.85 (40, 40) '''')\<lparr> click_out := Raises ''denied'' \<rparr>"

text \<open>The screen cannot be captured.\<close>

definition ex_grab_fails :: obs where
  "ex_grab_fails = (plain_obs ex_monitor ex_frame 0.85 (40, 40) '''')\<lparr> grab_out := Raises ''no capture'' \<rparr>"

text \<open>The watch of the concrete thread with the OCR fallback enabled, already armed.\<close>

definition ex_armed_ocr :: ImageWatch where
  "ex_armed_ocr = ex_watch\<lparr> ocr_fallback := True, triggered := True \<rparr>"

text \<open>The score has dropped below the threshold and the OCR engine is not installed.\<close>

definition ex_ocr_fails :: obs where
  "ex_ocr_fails = (plain_obs ex_monitor ex_frame 0.5 (1, 1) '''')\<lparr> ocr_out := Raises ''no tesseract'' \<rparr>"

text \<open>A watch on a banner 200 wide and 10 high, looked for in the region (0, 0, 100, 100).\<close>

definition ex_wide :: ImageWatch where
  "ex_wide = (ImageWatch_init ''banner.png'' (Some \<lparr> rows = 10, cols = 200 \<rparr>))
               \<lparr> region := Some (0, 0, 100, 100), click := True \<rparr>"

text \<open>The matcher rejects the template, wider than the frame, with an assertion error.\<close>

definition ex_match_rejects :: obs where
  "ex_match_rejects =
     (plain_obs ex_monitor ex_frame 0 (0, 0) '''')\<lparr> match_out := Raises ''assertion failed'' \<rparr>"

text \<open>The loop test of the following iteration reads the flag false: a stop was requested.\<close>

definition ex_stop :: tick_obs where
  "ex_stop = (ex_tick 0.5 0.1 0.14)\<lparr> running_read := False \<rparr>"

section \<open>Facts about the model\<close>

lemma action_kind: "is_action ev \<Longrightarrow> \<not> is_sleep ev \<and> \<not> is_read ev \<and> \<not> is_error ev \<and> \<not> is_ocr ev"
  by (cases ev) simp_all

lemma run_actions_only_actions:
  "run_actions as = (r, evs) \<Longrightarrow> \<forall>(b, ev, out) \<in> set as. is_action ev \<Longrightarrow> \<forall>ev \<in> set evs. is_action ev"
  by (induction as arbitrary: r evs rule: run_actions.induct)
     (auto split: outcome.splits prod.splits if_splits)

lemma actions_fire_only_actions:
  "run_actions (actions item ob cx cy) = (r, evs) \<Longrightarrow> \<forall>ev \<in> set evs. is_action ev"
  by (erule run_actions_only_actions) (simp add: actions_def)

lemma decide_events:
  "decide lang item ob mon mv loc = (r, evs) \<Longrightarrow> evs = [] \<or> evs = [ImageToString lang]"
  by (auto simp: decide_def Let_def split: outcome.splits if_splits)

lemma detect_events:
  "detect lang item ob = (r, evs) \<Longrightarrow>
     \<forall>ev \<in> set evs. \<not> is_action ev \<and> \<not> is_error ev \<and> \<not> is_sleep ev \<and> \<not> is_read ev"
  by (auto simp: detect_def split: outcome.splits option.splits prod.splits dest!: decide_events)

lemma process_item_raises:
  "detect lang item ob = (Raises e, evs) \<Longrightarrow> process_item lang item ob = (item, evs @ [ErrorEmit e])"
  by (simp add: process_item_def)

lemma process_item_skip:
  "detect lang item ob = (Returns None, evs) \<Longrightarrow> process_item lang item ob = (item, evs)"
  by (simp add: process_item_def)

lemma process_item_fire:
  "detect lang item ob = (Returns (Some (mon, True, x, y)), evs) \<Longrightarrow> \<not> triggered item \<Longrightarrow>
   run_actions (actions item ob (m_left mon + x + int (w item) div 2)
                                (m_top mon + y + int (h item) div 2)) = (r, evs2) \<Longrightarrow>
   process_item lang item ob =
     (item\<lparr>triggered := True\<rparr>,
      evs @ evs2 @ (case r of Raises e \<Rightarrow> [ErrorEmit e] | Returns u \<Rightarrow> []))"
  by (simp add: process_item_def Let_def split: outcome.splits)

lemma process_item_hold:
  "detect lang item ob = (Returns (Some (mon, True, x, y)), evs) \<Longrightarrow> triggered item \<Longrightarrow>
   process_item lang item ob = (item, evs)"
  by (simp add: process_item_def)

lemma process_item_lost:
  "detect lang item ob = (Returns (Some (mon, False, x, y)), evs) \<Longrightarrow>
   process_item lang item ob = (item\<lparr>triggered := False\<rparr>, evs)"
  by (simp add: process_item_def)

lemma process_item_no_sleep:
  "process_item lang item ob = (item', evs) \<Longrightarrow> \<forall>ev \<in> set evs. \<not> is_sleep ev \<and> \<not> is_read ev"
proof -
  assume p: "process_item lang item ob = (item', evs)"
  obtain r devs where d: "detect lang item ob = (r, devs)" by (cases "detect lang item ob")
  note de = detect_events[OF d]
  show ?thesis
  proof (cases r)
    case (Raises e)
    with p d de show ?thesis by (auto simp: process_item_raises)
  next
    case (Returns o1)
    show ?thesis
    proof (cases o1)
      case None
      with p d de Returns show ?thesis by (auto simp: process_item_skip)
    next
      case (Some q)
      obtain mon found x y where q: "q = (mon, found, x, y)" by (cases q) auto
      show ?thesis
      proof (cases "found \<and> \<not> triggered item")
        case True
        obtain ar evs2 where a: "run_actions (actions item ob (m_left mon + x + int (w item) div 2)
                                (m_top mon + y + int (h item) div 2)) = (ar, evs2)"
          by (cases "run_actions (actions item ob (m_left mon + x + int (w item) div 2)
                                (m_top mon + y + int (h item) div 2))")
        have a2: "\<forall>ev \<in> set evs2. \<not> is_sleep ev \<and> \<not> is_read ev"
          using actions_fire_only_actions[OF a] action_kind by blast
        from True d Returns Some q
        have d': "detect lang item ob = (Returns (Some (mon, True, x, y)), devs)" by simp
        from True have nt: "\<not> triggered item" by simp
        from p process_item_fire[OF d' nt a]
        have "evs = devs @ evs2 @ (case ar of Raises e \<Rightarrow> [ErrorEmit e] | Returns u \<Rightarrow> [])" by simp
        with a2 de show ?thesis by (auto split: outcome.splits)
      next
        case False
        with p d de Returns Some q show ?thesis
          by (cases found) (auto simp: process_item_hold process_item_lost)
      qed
    qed
  qed
qed

lemma for_items_no_sleep:
  "for_items lang obf i items = (items', evs) \<Longrightarrow> \<forall>ev \<in> set evs. \<not> is_sleep ev \<and> \<not> is_read ev"
proof (induction items arbitrary: i items' evs)
  case Nil
  then show ?case by simp
next
  case (Cons a items)
  obtain a' e1 where p: "process_item lang a (obf i) = (a', e1)" by (cases "process_item lang a (obf i)")
  obtain r' e2 where f: "for_items lang obf (Suc i) items = (r', e2)" by (cases "for_items lang obf (Suc i) items")
  from Cons.prems p f have "evs = e1 @ e2" by simp
  with process_item_no_sleep[OF p] Cons.IH[OF f] show ?case by auto
qed

lemma slept_none: "\<forall>ev \<in> set evs. \<not> is_sleep ev \<Longrightarrow> slept (evs @ tl0) = slept tl0"
  by (induction evs rule: slept.induct) auto

lemma filter_none: "\<forall>ev \<in> set evs. \<not> P ev \<Longrightarrow> filter P (evs @ tl0) = filter P tl0"
  by (induction evs) auto

lemma run_reads:
  "\<forall>t \<in> set ts. running_read t \<Longrightarrow> length (filter is_read (fst (snd (run st ts)))) = length ts"
proof (induction ts arbitrary: st)
  case Nil
  then show ?case by simp
next
  case (Cons t ts)
  obtain ws evs where f: "for_items (ocr_lang st) (item_obs t) 0 (watch_list st) = (ws, evs)"
    by (cases "for_items (ocr_lang st) (item_obs t) 0 (watch_list st)")
  have n: "\<forall>ev \<in> set (evs @ pace (interval st) (start_time t) (end_time t)). \<not> is_read ev"
    using for_items_no_sleep[OF f] by (auto simp: pace_def Let_def)
  obtain st2 evs2 r where r: "run (st\<lparr>watch_list := ws\<rparr>) ts = (st2, evs2, r)"
    by (cases "run (st\<lparr>watch_list := ws\<rparr>) ts")
  have "length (filter is_read evs2) = length ts"
    using Cons.IH[of "st\<lparr>watch_list := ws\<rparr>"] Cons.prems r by simp
  then show ?case using Cons.prems f r filter_none[OF n, of evs2]
    by (simp add: tick_def)
qed

lemma tick_sleep: "filter is_sleep (snd (tick st t)) = pace (interval st) (start_time t) (end_time t)"
proof -
  obtain ws evs where f: "for_items (ocr_lang st) (item_obs t) 0 (watch_list st) = (ws, evs)"
    by (cases "for_items (ocr_lang st) (item_obs t) 0 (watch_list st)")
  have "\<forall>ev \<in> set evs. \<not> is_sleep ev" using for_items_no_sleep[OF f] by blast
  from filter_none[OF this] f show ?thesis by (simp add: tick_def pace_def Let_def)
qed

lemma tick_slept: "slept (snd (tick st t)) = max 0 (interval st - (end_time t - start_time t))"
proof -
  obtain ws evs where f: "for_items (ocr_lang st) (item_obs t) 0 (watch_list st) = (ws, evs)"
    by (cases "for_items (ocr_lang st) (item_obs t) 0 (watch_list st)")
  have "\<forall>ev \<in> set evs. \<not> is_sleep ev" using for_items_no_sleep[OF f] by blast
  from slept_none[OF this] f show ?thesis by (simp add: tick_def pace_def Let_def)
qed

subsection \<open>The ways through one watch\<close>

lemma run_actions_return:
  "actions_return ob \<Longrightarrow> run_actions (actions item ob cx cy) = (Returns (), configured item cx cy)"
  by (simp add: actions_return_def actions_def configured_def)

lemma detect_triggered [simp]: "detect lang (item\<lparr>triggered := b\<rparr>) ob = detect lang item ob"
proof -
  have s: "select_mon (item\<lparr>triggered := b\<rparr>) ob = select_mon item ob"
    by (simp add: select_mon_def)
  have d: "\<And>mon mv loc. decide lang (item\<lparr>triggered := b\<rparr>) ob mon mv loc = decide lang item ob mon mv loc"
    by (simp add: decide_def)
  show ?thesis
    unfolding detect_def s d
    by (simp split: outcome.splits option.splits prod.splits)
qed

lemma found_on_triggered [simp]: "found_on lang (item\<lparr>triggered := b\<rparr>) ob = found_on lang item ob"
  by (simp add: found_on_def)

text \<open>The five ways a watch leaves its tick.\<close>

lemma process_item_cases:
  obtains
    (raises) e evs where "detect lang item ob = (Raises e, evs)"
      "process_item lang item ob = (item, evs @ [ErrorEmit e])"
  | (skip) evs where "detect lang item ob = (Returns None, evs)"
      "process_item lang item ob = (item, evs)"
  | (fire) mon x y evs r evs2 where "detect lang item ob = (Returns (Some (mon, True, x, y)), evs)"
      "\<not> triggered item"
      "run_actions (actions item ob (m_left mon + x + int (w item) div 2)
                                   (m_top mon + y + int (h item) div 2)) = (r, evs2)"
      "process_item lang item ob =
         (item\<lparr>triggered := True\<rparr>,
          evs @ evs2 @ (case r of Raises e \<Rightarrow> [ErrorEmit e] | Returns u \<Rightarrow> []))"
  | (hold) mon x y evs where "detect lang item ob = (Returns (Some (mon, True, x, y)), evs)"
      "triggered item" "process_item lang item ob = (item, evs)"
  | (lost) mon x y evs where "detect lang item ob = (Returns (Some (mon, False, x, y)), evs)"
      "process_item lang item ob = (item\<lparr>triggered := False\<rparr>, evs)"
proof -
  obtain r devs where d: "detect lang item ob = (r, devs)" by (cases "detect lang item ob")
  show ?thesis
  proof (cases r)
    case (Raises e)
    with d have d': "detect lang item ob = (Raises e, devs)" by simp
    from raises[OF d' process_item_raises[OF d']] show ?thesis .
  next
    case (Returns o1)
    show ?thesis
    proof (cases o1)
      case None
      with d Returns have d': "detect lang item ob = (Returns None, devs)" by simp
      from skip[OF d' process_item_skip[OF d']] show ?thesis .
    next
      case (Some q)
      obtain mon found x y where q: "q = (mon, found, x, y)" by (cases q) auto
      show ?thesis
      proof (cases found)
        case False
        with d Returns Some q
        have d': "detect lang item ob = (Returns (Some (mon, False, x, y)), devs)" by simp
        from lost[OF d' process_item_lost[OF d']] show ?thesis .
      next
        case True
        note f = this
        show ?thesis
        proof (cases "triggered item")
          case True
          from f d Returns Some q
          have d': "detect lang item ob = (Returns (Some (mon, True, x, y)), devs)" by simp
          from hold[OF d' True process_item_hold[OF d' True]] show ?thesis .
        next
          case False
          obtain ar evs2 where a: "run_actions (actions item ob (m_left mon + x + int (w item) div 2)
                                (m_top mon + y + int (h item) div 2)) = (ar, evs2)"
            by (cases "run_actions (actions item ob (m_left mon + x + int (w item) div 2)
                                (m_top mon + y + int (h item) div 2))")
          from f d Returns Some q
          have d': "detect lang item ob = (Returns (Some (mon, True, x, y)), devs)" by simp
          from fire[OF d' False a process_item_fire[OF d' False a]] show ?thesis .
        qed
      qed
    qed
  qed
qed

lemma detect_no_actions: "detect lang item ob = (r, evs) \<Longrightarrow> filter is_action evs = []"
  using detect_events by (fastforce simp: filter_empty_conv)

lemma process_item_actions_only_on_edge:
  assumes "filter is_action (snd (process_item lang item ob)) \<noteq> []"
  shows "found_on lang item ob \<and> \<not> triggered item"
proof (cases rule: process_item_cases[of lang item ob])
  case (fire mon x y evs r evs2)
  then show ?thesis by (simp add: found_on_def)
qed (use assms detect_no_actions in \<open>auto\<close>)

lemma process_item_sets_flag:
  assumes "found_on lang item ob"
  shows "triggered (fst (process_item lang item ob))"
proof (cases rule: process_item_cases[of lang item ob])
qed (use assms in \<open>auto simp: found_on_def\<close>)

lemma process_item_resets_flag:
  assumes "lost_on lang item ob"
  shows "\<not> triggered (fst (process_item lang item ob)) \<and> filter is_action (snd (process_item lang item ob)) = []"
proof (cases rule: process_item_cases[of lang item ob])
qed (use assms detect_no_actions in \<open>auto simp: lost_on_def\<close>)

lemma process_item_armed_quiet:
  assumes "triggered item"
  shows "filter is_action (snd (process_item lang item ob)) = []"
  using process_item_actions_only_on_edge[of lang item ob] assms by blast

lemma process_item_config:
  "fst (process_item lang item ob) = item\<lparr>triggered := triggered (fst (process_item lang item ob))\<rparr>"
  by (cases rule: process_item_cases[of lang item ob]) auto

lemma watch_ticks_armed_quiet:
  "triggered item \<Longrightarrow> \<forall>ob \<in> set obs. found_on lang item ob \<Longrightarrow>
     filter (\<lambda>r. snd r \<noteq> []) (watch_ticks lang item obs) = []"
proof (induction obs arbitrary: item)
  case Nil
  then show ?case by simp
next
  case (Cons ob obs)
  obtain item' evs where p: "process_item lang item ob = (item', evs)" by (cases "process_item lang item ob")
  have q: "filter is_action evs = []" using process_item_armed_quiet[OF Cons.prems(1), of lang ob] p by simp
  have t: "triggered item'" using process_item_sets_flag[of lang item ob] Cons.prems(2) p by simp
  have c: "item' = item\<lparr>triggered := triggered item'\<rparr>" using process_item_config[of lang item ob] p by simp
  have "\<forall>ob \<in> set obs. found_on lang item' ob"
    using Cons.prems(2) by (subst c) simp
  from Cons.IH[OF t this] p q show ?case by simp
qed

lemma watch_ticks_once:
  assumes "\<forall>ob \<in> set obs. found_on lang item ob"
  shows "length (filter (\<lambda>r. snd r \<noteq> []) (watch_ticks lang item obs)) \<le> 1"
proof (cases obs)
  case Nil
  then show ?thesis by simp
next
  case (Cons ob obs')
  obtain item' evs where p: "process_item lang item ob = (item', evs)" by (cases "process_item lang item ob")
  have t: "triggered item'" using process_item_sets_flag[of lang item ob] assms Cons p by simp
  have c: "item' = item\<lparr>triggered := triggered item'\<rparr>" using process_item_config[of lang item ob] p by simp
  have "\<forall>ob \<in> set obs'. found_on lang item' ob"
    using assms Cons by (subst c) simp
  from watch_ticks_armed_quiet[OF t this] p Cons show ?thesis by simp
qed

subsection \<open>Ticks in which every call returns\<close>

lemma plain_actions_return: "actions_return (plain_obs m fr s loc tx)"
  by (simp add: actions_return_def plain_obs_def)

lemma plain_detect:
  assumes "template item = Some t" "select_mon item (plain_obs m fr s (x, y) tx) = Returns mon"
    "\<not> contains ''skip'' (lower tx)"
  shows "detect lang item (plain_obs m fr s (x, y) tx) =
           (Returns (Some (mon, threshold item \<le> s, x, y)),
            [Grab mon, CvtColor, MatchTemplate (mask item \<noteq> None)] @
            (if s < threshold item \<and> ocr_fallback item then [ImageToString lang] else []))"
proof -
  have d: "decide lang item (plain_obs m fr s (x, y) tx) mon s (x, y) =
             (Returns (threshold item \<le> s, x, y),
              if s < threshold item \<and> ocr_fallback item then [ImageToString lang] else [])"
    using assms(3) by (auto simp: decide_def plain_obs_def Let_def)
  have o: "grab_out (plain_obs m fr s (x, y) tx) = Returns fr"
    "cvtColor_out (plain_obs m fr s (x, y) tx) = Returns ()"
    "match_out (plain_obs m fr s (x, y) tx) = Returns (s, x, y)"
    by (simp_all add: plain_obs_def)
  show ?thesis
    unfolding detect_def assms(1,2) o by (simp add: d)
qed

lemma configured_actions: "filter is_action (configured item cx cy) = configured item cx cy"
  by (simp add: configured_def)

lemma configured_triggered [simp]: "configured (item\<lparr>triggered := b\<rparr>) cx cy = configured item cx cy"
  by (simp add: configured_def)

lemma plain_process:
  assumes "template item = Some t" "select_mon item (plain_obs m fr s (x, y) tx) = Returns mon"
    "\<not> contains ''skip'' (lower tx)"
  shows "triggered (fst (process_item lang item (plain_obs m fr s (x, y) tx))) = (threshold item \<le> s)"
    and "filter is_action (snd (process_item lang item (plain_obs m fr s (x, y) tx))) =
           (if threshold item \<le> s \<and> \<not> triggered item
            then configured item (m_left mon + x + int (w item) div 2)
                                 (m_top mon + y + int (h item) div 2)
            else [])"
proof -
  note d = plain_detect[OF assms, of lang]
  have a: "\<And>cx cy. run_actions (actions item (plain_obs m fr s (x, y) tx) cx cy) = (Returns (), configured item cx cy)"
    by (rule run_actions_return[OF plain_actions_return])
  show "triggered (fst (process_item lang item (plain_obs m fr s (x, y) tx))) = (threshold item \<le> s)"
    unfolding process_item_def d by (simp add: a Let_def)
  show "filter is_action (snd (process_item lang item (plain_obs m fr s (x, y) tx))) =
           (if threshold item \<le> s \<and> \<not> triggered item
            then configured item (m_left mon + x + int (w item) div 2)
                                 (m_top mon + y + int (h item) div 2)
            else [])"
    unfolding process_item_def d by (simp add: a Let_def configured_actions)
qed

lemma plain_step:
  assumes "template item = Some t" "select_mon item (plain_obs m fr s (x, y) tx) = Returns mon"
    "\<not> contains ''skip'' (lower tx)"
  shows "watch_ticks lang item (plain_obs m fr s (x, y) tx # obs) =
           (threshold item \<le> s,
            if threshold item \<le> s \<and> \<not> triggered item
            then configured item (m_left mon + x + int (w item) div 2)
                                 (m_top mon + y + int (h item) div 2)
            else [])
           # watch_ticks lang (item\<lparr>triggered := threshold item \<le> s\<rparr>) obs"
proof -
  obtain item' evs where p: "process_item lang item (plain_obs m fr s (x, y) tx) = (item', evs)"
    by (cases "process_item lang item (plain_obs m fr s (x, y) tx)")
  from plain_process[OF assms, of lang] p
  have 1: "triggered item' = (threshold item \<le> s)"
    and 2: "filter is_action evs = (if threshold item \<le> s \<and> \<not> triggered item
            then configured item (m_left mon + x + int (w item) div 2)
                                 (m_top mon + y + int (h item) div 2)
            else [])" by simp_all
  from process_item_config[of lang item "plain_obs m fr s (x, y) tx"] p 1
  have 3: "item' = item\<lparr>triggered := threshold item \<le> s\<rparr>" by simp
  show ?thesis using p 2 3 by simp
qed

lemma five_ticks:
  assumes t: "template item = Some t" and nt: "\<not> triggered item"
    and m: "select_mon item (plain_obs m fr sa (xa, ya) tx) = Returns mon"
    and k: "\<not> contains ''skip'' (lower tx)"
    and s: "sa < threshold item" "threshold item \<le> sb" "threshold item \<le> sc"
           "sd < threshold item" "threshold item \<le> se"
  shows "watch_ticks lang item
           [plain_obs m fr sa (xa, ya) tx, plain_obs m fr sb (xb, yb) tx, plain_obs m fr sc (xc, yc) tx,
            plain_obs m fr sd (xd, yd) tx, plain_obs m fr se (xe, ye) tx] =
         [(False, []),
          (True, configured item (m_left mon + xb + int (w item) div 2) (m_top mon + yb + int (h item) div 2)),
          (True, []),
          (False, []),
          (True, configured item (m_left mon + xe + int (w item) div 2) (m_top mon + ye + int (h item) div 2))]"
proof -
  have sm: "\<And>b s x y. select_mon (item\<lparr>triggered := b\<rparr>) (plain_obs m fr s (x, y) tx) = Returns mon"
    using m by (auto simp: select_mon_def plain_obs_def split: option.splits prod.splits)
  have tt: "\<And>b. template (item\<lparr>triggered := b\<rparr>) = Some t" using t by simp
  have sm0: "\<And>s x y. select_mon item (plain_obs m fr s (x, y) tx) = Returns mon"
    using m by (auto simp: select_mon_def plain_obs_def split: option.splits prod.splits)
  show ?thesis
    using s nt
    by (simp add: plain_step[OF t sm0 k] plain_step[OF tt sm k] not_le del: watch_ticks.simps(2))
qed

lemma ex_watch_fields:
  "template ex_watch = Some \<lparr> rows = 20, cols = 20 \<rparr>" "\<not> triggered ex_watch"
  "threshold ex_watch = 0.8" "w ex_watch = 20" "h ex_watch = 20" "\<not> ocr_fallback ex_watch"
  "mask ex_watch = None"
  "select_mon ex_watch ob = Returns ex_region"
  "configured ex_watch cx cy = [MoveTo cx cy 0, Click]"
  by (simp_all add: ex_watch_def ImageWatch_init_def select_mon_def configured_def ex_region_def)

lemma no_skip: "\<not> contains ''skip'' (lower '''')"
  by (simp add: lower_def)

lemma ex_detect:
  "detect ''eng'' ex_watch (plain_obs ex_monitor ex_frame s (x, y) '''') =
     (Returns (Some (ex_region, 0.8 \<le> s, x, y)), [Grab ex_region, CvtColor, MatchTemplate False])"
  using plain_detect[OF ex_watch_fields(1) ex_watch_fields(8) no_skip, where lang = "''eng''"
      and m = ex_monitor and fr = ex_frame and s = s and x = x and y = y]
  by (simp add: ex_watch_fields)

lemma actions_no_ocr:
  assumes "run_actions (actions item ob cx cy) = (r, evs)"
  shows "filter is_ocr (evs @ (case r of Raises e \<Rightarrow> [ErrorEmit e] | Returns u \<Rightarrow> [])) = []"
  using actions_fire_only_actions[OF assms] action_kind
  by (auto simp: filter_empty_conv split: outcome.splits)

lemma process_item_ocr:
  "filter is_ocr (snd (process_item lang item ob)) = filter is_ocr (snd (detect lang item ob))"
proof (cases rule: process_item_cases[of lang item ob])
  case (fire mon x y evs r evs2)
  then show ?thesis using actions_no_ocr[OF fire(3)] by simp
qed simp_all

lemma detect_reached:
  assumes "template item = Some t" "select_mon item ob = Returns mon" "grab_out ob = Returns frame"
    "cvtColor_out ob = Returns ()" "match_out ob = Returns (score, x, y)"
  shows "detect lang item ob =
     (if threshold item \<le> score \<or> \<not> ocr_fallback item
      then (Returns (Some (mon, threshold item \<le> score, x, y)),
            [Grab mon, CvtColor, MatchTemplate (mask item \<noteq> None)])
      else case ocr_out ob of
             Raises e \<Rightarrow>
               (Raises e, [Grab mon, CvtColor, MatchTemplate (mask item \<noteq> None), ImageToString lang])
           | Returns tx \<Rightarrow>
               (Returns (Some (mon, contains ''skip'' (lower tx),
                  if contains ''skip'' (lower tx) then (m_width mon div 2, m_height mon div 2)
                  else (x, y))),
                [Grab mon, CvtColor, MatchTemplate (mask item \<noteq> None), ImageToString lang]))"
  unfolding detect_def assms
  by (auto simp: decide_def Let_def split: outcome.splits)

lemma detect_ocr_only_below:
  assumes "filter is_ocr (snd (detect lang item ob)) \<noteq> []"
  shows "ocr_fallback item \<and> (\<exists>s l. match_out ob = Returns (s, l) \<and> s < threshold item)"
  using assms
  by (auto simp: detect_def decide_def Let_def split: outcome.splits option.splits if_splits)

lemma skip_ad: "contains ''skip'' (lower ''Skip Ad'')"
  by code_simp

lemma plain_obs_fields:
  "monitors_1 (plain_obs m fr s l tx) = Returns m"
  "grab_out (plain_obs m fr s l tx) = Returns fr"
  "cvtColor_out (plain_obs m fr s l tx) = Returns ()"
  "match_out (plain_obs m fr s l tx) = Returns (s, l)"
  "ocr_out (plain_obs m fr s l tx) = Returns tx"
  by (simp_all add: plain_obs_def)

lemma move_is_action: "is_move ev \<Longrightarrow> is_action ev"
  by (cases ev) simp_all

lemma run_actions_filter_none:
  "\<forall>(b, ev, out) \<in> set as. \<not> P ev \<Longrightarrow> filter P (snd (run_actions as)) = []"
  by (induction as rule: run_actions.induct) (auto split: outcome.splits prod.splits)

lemma actions_moves:
  assumes "run_actions (actions item ob cx cy) = (r, evs)"
  shows "filter is_move evs = (if move_mouse item then [MoveTo cx cy (mouse_speed item)] else [])"
proof -
  define rest where "rest =
     [(click item, Click, click_out ob),
      (truthy (press_key item), Press (str_of (press_key item)), press_out ob),
      (notify item, ShowToast (path item), toast_out ob),
      (truthy (sound item), PlaySound (str_of (sound item)), sound_out ob),
      (truthy (window_title item), BringToForeground (str_of (window_title item)), window_out ob)]"
  have a: "actions item ob cx cy = (move_mouse item, MoveTo cx cy (mouse_speed item), moveTo_out ob) # rest"
    by (simp add: actions_def rest_def)
  have n: "filter is_move (snd (run_actions rest)) = []"
    by (rule run_actions_filter_none) (simp add: rest_def)
  obtain r' evs' where rr: "run_actions rest = (r', evs')" by (cases "run_actions rest")
  with n have n': "filter is_move evs' = []" by simp
  from assms show ?thesis
    unfolding a using rr n' by (auto split: outcome.splits if_splits)
qed

lemma detect_no_moves: "filter is_move (snd (detect lang item ob)) = []"
proof -
  obtain r evs where d: "detect lang item ob = (r, evs)" by (cases "detect lang item ob")
  from detect_events[OF d] move_is_action have "\<forall>ev \<in> set evs. \<not> is_move ev" by blast
  with d show ?thesis by (simp add: filter_empty_conv)
qed

lemma process_item_moves:
  "filter is_move (snd (process_item lang item ob)) =
     (case fst (detect lang item ob) of
        Returns (Some (mon, found, x, y)) \<Rightarrow>
          if found \<and> \<not> triggered item \<and> move_mouse item
          then [MoveTo (m_left mon + x + int (w item) div 2)
                       (m_top mon + y + int (h item) div 2) (mouse_speed item)]
          else []
      | Returns None \<Rightarrow> []
      | Raises e \<Rightarrow> [])"
proof (cases rule: process_item_cases[of lang item ob])
  case (fire mon x y evs r evs2)
  have "filter is_move evs = []" using detect_no_moves[of lang item ob] fire(1) by simp
  with fire actions_moves[OF fire(3)] show ?thesis by (auto split: outcome.splits)
qed (use detect_no_moves[of lang item ob] in auto)

lemma ex_process_fire:
  "process_item ''eng'' ex_watch (plain_obs ex_monitor ex_frame 0.85 (40, 40) '''') =
     (ex_watch\<lparr>triggered := True\<rparr>,
      [Grab ex_region, CvtColor, MatchTemplate False, MoveTo 50 50 0, Click])"
proof -
  have d: "detect ''eng'' ex_watch (plain_obs ex_monitor ex_frame 0.85 (40, 40) '''') =
     (Returns (Some (ex_region, True, 40, 40)), [Grab ex_region, CvtColor, MatchTemplate False])"
    by (simp add: ex_detect)
  show ?thesis
    using process_item_fire[OF d ex_watch_fields(2) run_actions_return[OF plain_actions_return]]
    by (simp add: ex_watch_fields ex_region_def)
qed

lemma ex_watch_config:
  "region ex_watch = Some (0, 0, 100, 100)" "move_mouse ex_watch" "click ex_watch"
  "mouse_speed ex_watch = 0"
  by (simp_all add: ex_watch_def ImageWatch_init_def)

lemma detect_inert:
  assumes "template item = None"
  shows "(\<exists>e evs. detect lang item ob = (Raises e, evs) \<and> filter is_ocr evs = [])
         \<or> (\<exists>evs. detect lang item ob = (Returns None, evs) \<and> filter is_ocr evs = [])"
  using assms by (auto simp: detect_def split: outcome.splits)

lemma process_item_inert:
  assumes "template item = None"
  shows "fst (process_item lang item ob) = item"
    and "filter is_action (snd (process_item lang item ob)) = []"
    and "filter is_ocr (snd (process_item lang item ob)) = []"
    and "\<not> found_on lang item ob"
proof -
  from detect_inert[OF assms, of lang ob]
  consider (raises) e evs where "detect lang item ob = (Raises e, evs)" "filter is_ocr evs = []"
    | (skip) evs where "detect lang item ob = (Returns None, evs)" "filter is_ocr evs = []"
    by blast
  then have "fst (process_item lang item ob) = item
     \<and> filter is_action (snd (process_item lang item ob)) = []
     \<and> filter is_ocr (snd (process_item lang item ob)) = []
     \<and> \<not> found_on lang item ob"
  proof cases
    case raises
    then show ?thesis
      using detect_no_actions[OF raises(1)]
      by (simp add: process_item_raises found_on_def)
  next
    case skip
    then show ?thesis
      using detect_no_actions[OF skip(1)]
      by (simp add: process_item_skip found_on_def)
  qed
  then show "fst (process_item lang item ob) = item"
    and "filter is_action (snd (process_item lang item ob)) = []"
    and "filter is_ocr (snd (process_item lang item ob)) = []"
    and "\<not> found_on lang item ob" by simp_all
qed

lemma watch_ticks_inert:
  assumes "template item = None" "\<not> triggered item"
  shows "watch_ticks lang item obs = replicate (length obs) (False, [])"
proof (induction obs)
  case Nil
  then show ?case by simp
next
  case (Cons ob obs)
  obtain item' evs where p: "process_item lang item ob = (item', evs)"
    by (cases "process_item lang item ob")
  with process_item_inert(1,2)[OF assms(1), of lang ob]
  have "item' = item" "filter is_action evs = []" by simp_all
  with p Cons assms(2) show ?case by simp
qed

lemma configured_eq: "configured item cx cy = map (fst \<circ> snd) (filter fst (actions item ob cx cy))"
  by (simp add: configured_def actions_def)

lemma run_actions_prefix:
  "run_actions as = (r, evs) \<Longrightarrow> \<exists>post. map (fst \<circ> snd) (filter fst as) = evs @ post"
proof (induction as arbitrary: r evs rule: run_actions.induct)
  case 1
  then show ?case by simp
next
  case (2 enabled ev out rest)
  show ?case
  proof (cases enabled)
    case False
    with 2 show ?thesis by simp
  next
    case True
    note en = this
    show ?thesis
    proof (cases out)
      case (Raises e)
      with "2.prems" en show ?thesis by auto
    next
      case (Returns u)
      obtain r' evs' where rr: "run_actions rest = (r', evs')" by (cases "run_actions rest")
      from "2.IH"(1)[OF en Returns rr] obtain post where
        "map (fst \<circ> snd) (filter fst rest) = evs' @ post" by blast
      with "2.prems" en Returns rr show ?thesis by (auto simp: comp_def)
    qed
  qed
qed

lemma run_actions_raises_nonempty: "run_actions as = (Raises e, evs) \<Longrightarrow> evs \<noteq> []"
  by (induction as arbitrary: evs rule: run_actions.induct)
     (auto split: if_splits outcome.splits prod.splits)

lemma actions_move_raises:
  assumes "move_mouse item" "moveTo_out ob = Raises e"
  shows "run_actions (actions item ob cx cy) = (Raises e, [MoveTo cx cy (mouse_speed item)])"
  using assms by (simp add: actions_def)

lemma for_items_step:
  "for_items lang obf i (item # rest) =
     (fst (process_item lang item (obf i)) # fst (for_items lang obf (Suc i) rest),
      snd (process_item lang item (obf i)) @ snd (for_items lang obf (Suc i) rest))"
  by (simp split: prod.splits)

lemma ex_move_fails_detect:
  "detect ''eng'' ex_watch ex_move_fails =
     (Returns (Some (ex_region, True, 40, 40)), [Grab ex_region, CvtColor, MatchTemplate False])"
  using detect_reached[where item = ex_watch and ob = ex_move_fails and lang = "''eng''"
      and t = "\<lparr> rows = 20, cols = 20 \<rparr>" and mon = ex_region and score = "0.85" and x = 40 and y = 40
      and frame = ex_frame]
  by (simp add: ex_watch_fields ex_move_fails_def plain_obs_def)

lemma ex_move_fails_actions:
  "run_actions (actions ex_watch ex_move_fails cx cy) = (Raises ''fail-safe'', [MoveTo cx cy 0])"
  using actions_move_raises[of ex_watch ex_move_fails "''fail-safe''" cx cy]
  by (simp add: ex_watch_config ex_move_fails_def)

lemma ex_move_fails_process:
  "process_item ''eng'' ex_watch ex_move_fails =
     (ex_watch\<lparr>triggered := True\<rparr>,
      [Grab ex_region, CvtColor, MatchTemplate False, MoveTo 50 50 0, ErrorEmit ''fail-safe''])"
  using process_item_fire[OF ex_move_fails_detect ex_watch_fields(2) ex_move_fails_actions]
  by (simp add: ex_watch_fields ex_region_def)

lemma detect_no_errors: "detect lang item ob = (r, evs) \<Longrightarrow> filter is_error evs = []"
  using detect_events by (fastforce simp: filter_empty_conv)

lemma decide_raises:
  "decide lang item ob mon mv loc = (Raises e, evs) \<Longrightarrow> ocr_out ob = Raises e"
  by (auto simp: decide_def Let_def split: if_splits outcome.splits)

lemma select_mon_raises: "select_mon item ob = Raises e \<Longrightarrow> monitors_1 ob = Raises e"
  by (auto simp: select_mon_def split: option.splits prod.splits)

lemma detect_raises_source:
  assumes "fst (detect lang item ob) = Raises e"
  shows "monitors_1 ob = Raises e \<or> grab_out ob = Raises e \<or> cvtColor_out ob = Raises e
         \<or> match_out ob = Raises e \<or> ocr_out ob = Raises e"
proof (cases "select_mon item ob")
  case (Raises e')
  with assms select_mon_raises[of item ob e'] show ?thesis by (simp add: detect_def)
next
  case sm: (Returns mon)
  show ?thesis
  proof (cases "grab_out ob")
    case (Raises e')
    with assms sm show ?thesis by (simp add: detect_def)
  next
    case g: (Returns frame)
    show ?thesis
    proof (cases "cvtColor_out ob")
      case (Raises e')
      with assms sm g show ?thesis by (simp add: detect_def)
    next
      case c: (Returns u)
      show ?thesis
      proof (cases "template item")
        case None
        with assms sm g c show ?thesis by (simp add: detect_def)
      next
        case t: (Some tm)
        show ?thesis
        proof (cases "match_out ob")
          case (Raises e')
          with assms sm g c t show ?thesis by (simp add: detect_def)
        next
          case m: (Returns res)
          obtain mv x y where res: "res = (mv, x, y)" by (cases res) auto
          obtain r evs where d: "decide lang item ob mon mv (x, y) = (r, evs)"
            by (cases "decide lang item ob mon mv (x, y)")
          show ?thesis
          proof (cases r)
            case (Raises e')
            with assms sm g c t m res d decide_raises[of lang item ob mon mv "(x, y)" e' evs]
            show ?thesis by (simp add: detect_def)
          next
            case (Returns q)
            with assms sm g c t m res d show ?thesis
              by (simp add: detect_def split: prod.splits)
          qed
        qed
      qed
    qed
  qed
qed

lemma process_item_detect_raises:
  assumes "fst (detect lang item ob) = Raises e"
  shows "fst (process_item lang item ob) = item"
    and "filter is_action (snd (process_item lang item ob)) = []"
    and "filter is_error (snd (process_item lang item ob)) = [ErrorEmit e]"
proof -
  obtain evs where d: "detect lang item ob = (Raises e, evs)"
    using assms by (cases "detect lang item ob") simp
  from process_item_raises[OF d] detect_no_actions[OF d] detect_no_errors[OF d]
  show "fst (process_item lang item ob) = item"
    and "filter is_action (snd (process_item lang item ob)) = []"
    and "filter is_error (snd (process_item lang item ob)) = [ErrorEmit e]"
    by simp_all
qed

lemma process_item_error_cases:
  assumes "filter is_error (snd (process_item lang item ob)) \<noteq> []"
  shows "(\<exists>e. fst (detect lang item ob) = Raises e) \<and> fst (process_item lang item ob) = item
         \<or> found_on lang item ob \<and> \<not> triggered item
           \<and> fst (process_item lang item ob) = item\<lparr>triggered := True\<rparr>"
proof (cases rule: process_item_cases[of lang item ob])
  case (raises e evs)
  then show ?thesis by simp
next
  case (skip evs)
  with assms detect_no_errors[OF skip(1)] show ?thesis by simp
next
  case (fire mon x y evs r evs2)
  then show ?thesis by (simp add: found_on_def)
next
  case (hold mon x y evs)
  with assms detect_no_errors[OF hold(1)] show ?thesis by simp
next
  case (lost mon x y evs)
  with assms detect_no_errors[OF lost(1)] show ?thesis by simp
qed

lemma ex_click_fails_detect:
  "detect ''eng'' ex_watch ex_click_fails =
     (Returns (Some (ex_region, True, 40, 40)), [Grab ex_region, CvtColor, MatchTemplate False])"
  using detect_reached[where item = ex_watch and ob = ex_click_fails and lang = "''eng''"
      and t = "\<lparr> rows = 20, cols = 20 \<rparr>" and mon = ex_region and score = "0.85" and x = 40 and y = 40
      and frame = ex_frame]
  by (simp add: ex_watch_fields ex_click_fails_def plain_obs_def)

lemma ex_click_fails_actions:
  "run_actions (actions ex_watch ex_click_fails cx cy) = (Raises ''denied'', [MoveTo cx cy 0, Click])"
  by (simp add: actions_def ex_watch_config ex_click_fails_def plain_obs_def)

lemma ex_click_fails_process:
  "process_item ''eng'' ex_watch ex_click_fails =
     (ex_watch\<lparr>triggered := True\<rparr>,
      [Grab ex_region, CvtColor, MatchTemplate False, MoveTo 50 50 0, Click, ErrorEmit ''denied''])"
  using process_item_fire[OF ex_click_fails_detect ex_watch_fields(2) ex_click_fails_actions]
  by (simp add: ex_watch_fields ex_region_def)

lemma ex_grab_fails_detect:
  "detect lang ex_watch ex_grab_fails = (Raises ''no capture'', [Grab ex_region])"
proof -
  have g: "grab_out ex_grab_fails = Raises ''no capture''"
    by (simp add: ex_grab_fails_def)
  show ?thesis
    unfolding detect_def ex_watch_fields(8) g by simp
qed

lemma ex_grab_fails_armed:
  "detect lang (ex_watch\<lparr>triggered := True\<rparr>) ex_grab_fails = (Raises ''no capture'', [Grab ex_region])"
  by (simp only: detect_triggered ex_grab_fails_detect)

lemma run_step:
  "running_read t \<Longrightarrow>
     fst (snd (run st (t # ts))) =
       ReadRunning True # snd (tick st t) @ fst (snd (run (fst (tick st t)) ts))"
  by (simp split: prod.splits)

lemma process_item_ocr_miss:
  assumes "template item = Some t" "select_mon item ob = Returns mon" "grab_out ob = Returns frame"
    "cvtColor_out ob = Returns ()" "match_out ob = Returns (score, x, y)"
    "score < threshold item" "ocr_fallback item"
    "ocr_out ob = Returns tx" "\<not> contains ''skip'' (lower tx)"
  shows "process_item lang item ob =
           (item\<lparr>triggered := False\<rparr>,
            [Grab mon, CvtColor, MatchTemplate (mask item \<noteq> None), ImageToString lang])"
proof -
  have "detect lang item ob =
          (Returns (Some (mon, False, x, y)),
           [Grab mon, CvtColor, MatchTemplate (mask item \<noteq> None), ImageToString lang])"
    using detect_reached[OF assms(1-5), of lang] assms(6-9) by simp
  then show ?thesis by (rule process_item_lost)
qed

lemma process_item_ocr_raises:
  assumes "template item = Some t" "select_mon item ob = Returns mon" "grab_out ob = Returns frame"
    "cvtColor_out ob = Returns ()" "match_out ob = Returns (score, x, y)"
    "score < threshold item" "ocr_fallback item"
    "ocr_out ob = Raises e"
  shows "process_item lang item ob =
           (item, [Grab mon, CvtColor, MatchTemplate (mask item \<noteq> None), ImageToString lang,
                   ErrorEmit e])"
proof -
  have "detect lang item ob =
          (Raises e, [Grab mon, CvtColor, MatchTemplate (mask item \<noteq> None), ImageToString lang])"
    using detect_reached[OF assms(1-5), of lang] assms(6-8) by simp
  from process_item_raises[OF this] show ?thesis by simp
qed

lemma ex_armed_ocr_fields:
  "template ex_armed_ocr = Some \<lparr> rows = 20, cols = 20 \<rparr>" "triggered ex_armed_ocr"
  "threshold ex_armed_ocr = 0.8" "ocr_fallback ex_armed_ocr" "mask ex_armed_ocr = None"
  "select_mon ex_armed_ocr ob = Returns ex_region"
  by (simp_all add: ex_armed_ocr_def ex_watch_def ImageWatch_init_def select_mon_def ex_region_def)

lemma ex_ocr_fails_fields:
  "grab_out ex_ocr_fails = Returns ex_frame"
  "cvtColor_out ex_ocr_fails = Returns ()"
  "match_out ex_ocr_fails = Returns (0.5, 1, 1)"
  "ocr_out ex_ocr_fails = Raises ''no tesseract''"
  by (simp_all add: ex_ocr_fails_def plain_obs_def)

lemma ex_ocr_fails_process:
  "process_item ''eng'' ex_armed_ocr ex_ocr_fails =
     (ex_armed_ocr,
      [Grab ex_region, CvtColor, MatchTemplate False, ImageToString ''eng'', ErrorEmit ''no tesseract''])"
  using process_item_ocr_raises[OF ex_armed_ocr_fields(1) ex_armed_ocr_fields(6)
      ex_ocr_fails_fields(1,2,3) _ ex_armed_ocr_fields(4) ex_ocr_fails_fields(4), of "''eng''"]
  by (simp add: ex_armed_ocr_fields)

lemma process_item_match_raises:
  assumes "template item = Some t" "select_mon item ob = Returns mon" "grab_out ob = Returns frame"
    "cvtColor_out ob = Returns ()" "match_out ob = Raises e"
  shows "process_item lang item ob =
           (item, [Grab mon, CvtColor, MatchTemplate (mask item \<noteq> None), ErrorEmit e])"
proof -
  have "detect lang item ob = (Raises e, [Grab mon, CvtColor, MatchTemplate (mask item \<noteq> None)])"
    unfolding detect_def assms by simp
  from process_item_raises[OF this] show ?thesis by simp
qed

lemma found_on_reached:
  assumes "template item = Some t" "select_mon item ob = Returns mon" "grab_out ob = Returns frame"
    "cvtColor_out ob = Returns ()" "match_out ob = Returns (score, x, y)" "threshold item \<le> score"
  shows "found_on lang item ob"
  using detect_reached[OF assms(1-5), of lang] assms(6) by (simp add: found_on_def)

lemma ex_wide_fields:
  "template ex_wide = Some \<lparr> rows = 10, cols = 200 \<rparr>" "\<not> triggered ex_wide"
  "threshold ex_wide = 0.8" "w ex_wide = 200" "h ex_wide = 10" "mask ex_wide = None"
  "select_mon ex_wide ob = Returns ex_region" "click ex_wide"
  by (simp_all add: ex_wide_def ImageWatch_init_def select_mon_def ex_region_def)

lemma ex_match_rejects_fields:
  "grab_out ex_match_rejects = Returns ex_frame"
  "cvtColor_out ex_match_rejects = Returns ()"
  "match_out ex_match_rejects = Raises ''assertion failed''"
  by (simp_all add: ex_match_rejects_def plain_obs_def)

lemma ex_match_rejects_process:
  "process_item ''eng'' ex_wide ex_match_rejects =
     (ex_wide, [Grab ex_region, CvtColor, MatchTemplate False, ErrorEmit ''assertion failed''])"
  using process_item_match_raises[OF ex_wide_fields(1) ex_wide_fields(7) ex_match_rejects_fields,
      of "''eng''"]
  by (simp add: ex_wide_fields)

lemma tick_no_read: "filter is_read (snd (tick st t)) = []"
proof -
  obtain ws evs where f: "for_items (ocr_lang st) (item_obs t) 0 (watch_list st) = (ws, evs)"
    by (cases "for_items (ocr_lang st) (item_obs t) 0 (watch_list st)")
  have "\<forall>ev \<in> set evs. \<not> is_read ev" using for_items_no_sleep[OF f] by blast
  from filter_none[OF this] f show ?thesis by (simp add: tick_def pace_def Let_def)
qed

lemma run_stop: "\<not> running_read t \<Longrightarrow> run st (t # ts) = (st, [ReadRunning False], True)"
  by simp

lemma run_returns_iff: "snd (snd (run st ts)) = (\<exists>t \<in> set ts. \<not> running_read t)"
proof (induction ts arbitrary: st)
  case Nil
  then show ?case by simp
next
  case (Cons t ts)
  obtain st' evs where tk: "tick st t = (st', evs)" by (cases "tick st t")
  obtain st2 evs2 r where rr: "run st' ts = (st2, evs2, r)" by (cases "run st' ts")
  from Cons.IH[of st'] rr have "r = (\<exists>t \<in> set ts. \<not> running_read t)" by simp
  with tk rr show ?case by simp
qed

lemma run_read_count:
  "length (filter is_read (fst (snd (run st ts)))) =
     length (takeWhile running_read ts) + (if snd (snd (run st ts)) then 1 else 0)"
proof (induction ts arbitrary: st)
  case Nil
  then show ?case by simp
next
  case (Cons t ts)
  show ?case
  proof (cases "running_read t")
    case False
    then show ?thesis by simp
  next
    case True
    obtain st' evs where tk: "tick st t = (st', evs)" by (cases "tick st t")
    obtain st2 evs2 r where rr: "run st' ts = (st2, evs2, r)" by (cases "run st' ts")
    have n: "filter is_read evs = []" using tick_no_read[of st t] tk by simp
    from Cons.IH[of st'] rr
    have "length (filter is_read evs2) = length (takeWhile running_read ts) + (if r then 1 else 0)"
      by simp
    with True tk rr n show ?thesis by simp
  qed
qed

lemma run_last:
  "snd (snd (run st ts)) \<Longrightarrow> last (fst (snd (run st ts))) = ReadRunning False"
proof (induction ts arbitrary: st)
  case Nil
  then show ?case by simp
next
  case (Cons t ts)
  show ?case
  proof (cases "running_read t")
    case False
    then show ?thesis by simp
  next
    case True
    obtain st' evs where tk: "tick st t = (st', evs)" by (cases "tick st t")
    obtain st2 evs2 r where rr: "run st' ts = (st2, evs2, r)" by (cases "run st' ts")
    from Cons.prems True tk rr have r by simp
    with Cons.IH[of st'] rr have l: "last evs2 = ReadRunning False" by simp
    have "evs2 \<noteq> []" using run_read_count[of st' ts] rr \<open>r\<close> by auto
    with True tk rr l show ?thesis by simp
  qed
qed

lemma ex_tick_fields:
  "running_read (ex_tick s a b)" "start_time (ex_tick s a b) = a" "end_time (ex_tick s a b) = b"
  "item_obs (ex_tick s a b) i = plain_obs ex_monitor ex_frame s (40, 40) ''''"
  by (simp_all add: ex_tick_def)

lemma ex_lost_process:
  "process_item ''eng'' ex_watch (plain_obs ex_monitor ex_frame 0.5 (40, 40) '''') =
     (ex_watch\<lparr>triggered := False\<rparr>, [Grab ex_region, CvtColor, MatchTemplate False])"
proof -
  have d: "detect ''eng'' ex_watch (plain_obs ex_monitor ex_frame 0.5 (40, 40) '''') =
     (Returns (Some (ex_region, False, 40, 40)), [Grab ex_region, CvtColor, MatchTemplate False])"
    by (simp add: ex_detect)
  from process_item_lost[OF d] show ?thesis .
qed

lemma ex_tick_trace:
  "snd (tick ex_thread (ex_tick 0.5 0 0.04)) =
     [Grab ex_region, CvtColor, MatchTemplate False, Sleep 0.06]"
proof -
  have f: "for_items ''eng'' (item_obs (ex_tick 0.5 0 0.04)) 0 [ex_watch] =
             ([ex_watch\<lparr>triggered := False\<rparr>], [Grab ex_region, CvtColor, MatchTemplate False])"
    using ex_lost_process by (simp add: ex_tick_fields)
  have p: "pace 0.1 0 0.04 = [Sleep 0.06]" by (simp add: pace_def Let_def)
  have s: "watch_list ex_thread = [ex_watch]" "interval ex_thread = 0.1" "ocr_lang ex_thread = ''eng''"
    by (simp_all add: ex_thread_def)
  show ?thesis
    unfolding tick_def s f ex_tick_fields p by simp
qed

section \<open>The claims\<close>

text \<open>
  C5. After all watches of a tick, the loop asks for a sleep of
  \<open>max 0 (interval - elapsed)\<close>: the remaining difference, as the last call of the
  tick, when the tick was shorter than the interval, and no sleep at all otherwise, in
  which case the next loop test and the next tick follow at once. Every iteration whose
  loop test passes is executed, whatever the ticks before it took.
\<close>

theorem tick_pacing:
  "slept (snd (tick st t)) = max 0 (interval st - (end_time t - start_time t))
   \<and> (end_time t1 - start_time t1 < interval st \<longrightarrow>
        filter is_sleep (snd (tick st t1)) = [Sleep (interval st - (end_time t1 - start_time t1))]
        \<and> last (snd (tick st t1)) = Sleep (interval st - (end_time t1 - start_time t1)))
   \<and> (running_read t2 \<and> interval st \<le> end_time t2 - start_time t2 \<longrightarrow>
        filter is_sleep (snd (tick st t2)) = []
        \<and> fst (snd (run st (t2 # ts))) =
            ReadRunning True # snd (for_items (ocr_lang st) (item_obs t2) 0 (watch_list st))
              @ fst (snd (run (fst (tick st t2)) ts)))
   \<and> ((\<forall>t \<in> set ts. running_read t) \<longrightarrow>
        length (filter is_read (fst (snd (run st ts)))) = length ts)"
proof (intro conjI impI)
  show "slept (snd (tick st t)) = max 0 (interval st - (end_time t - start_time t))"
    by (rule tick_slept)
next
  assume "end_time t1 - start_time t1 < interval st"
  then show "filter is_sleep (snd (tick st t1)) = [Sleep (interval st - (end_time t1 - start_time t1))]"
    by (simp add: tick_sleep pace_def Let_def)
next
  assume "end_time t1 - start_time t1 < interval st"
  then show "last (snd (tick st t1)) = Sleep (interval st - (end_time t1 - start_time t1))"
    by (simp add: tick_def pace_def Let_def split: prod.splits)
next
  assume "running_read t2 \<and> interval st \<le> end_time t2 - start_time t2"
  then show "filter is_sleep (snd (tick st t2)) = []"
    by (simp add: tick_sleep pace_def Let_def)
next
  assume "running_read t2 \<and> interval st \<le> end_time t2 - start_time t2"
  then show "fst (snd (run st (t2 # ts))) =
            ReadRunning True # snd (for_items (ocr_lang st) (item_obs t2) 0 (watch_list st))
              @ fst (snd (run (fst (tick st t2)) ts))"
    by (simp add: tick_def pace_def Let_def split: prod.splits)
next
  assume "\<forall>t \<in> set ts. running_read t"
  then show "length (filter is_read (fst (snd (run st ts)))) = length ts"
    by (rule run_reads)
qed

theorem tick_pacing_witness:
  "end_time (ex_tick 0.85 0 0.04) - start_time (ex_tick 0.85 0 0.04) < interval ex_thread
   \<and> running_read (ex_tick 0.85 1 1.25)
   \<and> interval ex_thread \<le> end_time (ex_tick 0.85 1 1.25) - start_time (ex_tick 0.85 1 1.25)
   \<and> running_read (ex_tick 0.5 2 2.01)
   \<and> slept (snd (tick ex_thread (ex_tick 0.85 0 0.04))) = 0.06
   \<and> filter is_sleep (snd (tick ex_thread (ex_tick 0.85 0 0.04))) = [Sleep 0.06]
   \<and> filter is_sleep (snd (tick ex_thread (ex_tick 0.85 1 1.25))) = []
   \<and> length (filter is_read (fst (snd (run ex_thread [ex_tick 0.5 2 2.01])))) = 1"
  using tick_pacing [of ex_thread "ex_tick 0.85 0 0.04" "ex_tick 0.85 0 0.04" "ex_tick 0.85 1 1.25"
                        "[ex_tick 0.5 2 2.01]"]
  by (simp add: ex_thread_def ex_tick_def)



text \<open>
  C2. Once the matcher has returned the best score of a watch with a decoded template,
  the watch is found exactly when the score is at least the threshold (a score equal to
  the threshold counts) or the OCR fallback, enabled, returns a text with the keyword.
  The OCR engine is called exactly when the score is below the threshold and the fallback
  is enabled: with a score at or above the threshold it is never called in that tick of
  that watch, and any call of it tells that the score was below and the fallback enabled.
\<close>

theorem found_by_threshold:
  "(template item = Some t \<and> select_mon item ob = Returns mon \<and> grab_out ob = Returns frame
      \<and> cvtColor_out ob = Returns () \<and> match_out ob = Returns (score, x, y) \<longrightarrow>
      found_on lang item ob =
        (threshold item \<le> score
         \<or> ocr_fallback item \<and> (\<exists>tx. ocr_out ob = Returns tx \<and> contains ''skip'' (lower tx)))
      \<and> filter is_ocr (snd (process_item lang item ob)) =
          (if score < threshold item \<and> ocr_fallback item then [ImageToString lang] else []))
   \<and> (match_out ob = Returns (score, x, y) \<and> threshold item \<le> score \<longrightarrow>
        filter is_ocr (snd (process_item lang item ob)) = [])
   \<and> (filter is_ocr (snd (process_item lang item' ob')) \<noteq> [] \<longrightarrow>
        ocr_fallback item' \<and> (\<exists>s l. match_out ob' = Returns (s, l) \<and> s < threshold item'))"
proof (intro conjI impI)
  assume a: "template item = Some t \<and> select_mon item ob = Returns mon \<and> grab_out ob = Returns frame
      \<and> cvtColor_out ob = Returns () \<and> match_out ob = Returns (score, x, y)"
  then have d: "detect lang item ob =
     (if threshold item \<le> score \<or> \<not> ocr_fallback item
      then (Returns (Some (mon, threshold item \<le> score, x, y)),
            [Grab mon, CvtColor, MatchTemplate (mask item \<noteq> None)])
      else case ocr_out ob of
             Raises e \<Rightarrow>
               (Raises e, [Grab mon, CvtColor, MatchTemplate (mask item \<noteq> None), ImageToString lang])
           | Returns tx \<Rightarrow>
               (Returns (Some (mon, contains ''skip'' (lower tx),
                  if contains ''skip'' (lower tx) then (m_width mon div 2, m_height mon div 2)
                  else (x, y))),
                [Grab mon, CvtColor, MatchTemplate (mask item \<noteq> None), ImageToString lang]))"
    using detect_reached by blast
  show "found_on lang item ob =
        (threshold item \<le> score
         \<or> ocr_fallback item \<and> (\<exists>tx. ocr_out ob = Returns tx \<and> contains ''skip'' (lower tx)))"
    unfolding found_on_def d by (auto split: outcome.splits)
  show "filter is_ocr (snd (process_item lang item ob)) =
          (if score < threshold item \<and> ocr_fallback item then [ImageToString lang] else [])"
    unfolding process_item_ocr d by (auto split: outcome.splits)
next
  assume a: "match_out ob = Returns (score, x, y) \<and> threshold item \<le> score"
  show "filter is_ocr (snd (process_item lang item ob)) = []"
  proof (rule ccontr)
    assume "filter is_ocr (snd (process_item lang item ob)) \<noteq> []"
    then have "filter is_ocr (snd (detect lang item ob)) \<noteq> []" by (simp add: process_item_ocr)
    from detect_ocr_only_below[OF this] a show False by auto
  qed
next
  assume "filter is_ocr (snd (process_item lang item' ob')) \<noteq> []"
  then have "filter is_ocr (snd (detect lang item' ob')) \<noteq> []" by (simp add: process_item_ocr)
  from detect_ocr_only_below[OF this]
  show "ocr_fallback item'" and "\<exists>s l. match_out ob' = Returns (s, l) \<and> s < threshold item'"
    by simp_all
qed

theorem found_by_threshold_witness:
  "found_on ''eng'' ex_watch (plain_obs ex_monitor ex_frame 0.8 (40, 40) '''')
   \<and> threshold ex_watch \<le> 0.8
   \<and> filter is_ocr (snd (process_item ''eng'' ex_watch (plain_obs ex_monitor ex_frame 0.8 (40, 40) ''''))) = []
   \<and> filter is_ocr (snd (process_item ''eng'' (ex_watch\<lparr>ocr_fallback := True\<rparr>)
         (plain_obs ex_monitor ex_frame 0.5 (1, 1) ''Skip Ad''))) \<noteq> []
   \<and> ocr_fallback (ex_watch\<lparr>ocr_fallback := True\<rparr>)
   \<and> (0.5 :: real) < threshold (ex_watch\<lparr>ocr_fallback := True\<rparr>)"
proof -
  have o: "filter is_ocr (snd (process_item ''eng'' (ex_watch\<lparr>ocr_fallback := True\<rparr>)
         (plain_obs ex_monitor ex_frame 0.5 (1, 1) ''Skip Ad''))) \<noteq> []"
    unfolding process_item_ocr
    by (subst detect_reached[where t = "\<lparr> rows = 20, cols = 20 \<rparr>" and mon = ex_region
          and score = "0.5" and x = 1 and y = 1])
       (simp_all add: ex_watch_fields plain_obs_fields select_mon_def ex_watch_def ImageWatch_init_def
          ex_region_def skip_ad)
  show ?thesis
    using found_by_threshold [where lang = "''eng''" and item = ex_watch
      and ob = "plain_obs ex_monitor ex_frame 0.8 (40, 40) ''''" and t = "\<lparr> rows = 20, cols = 20 \<rparr>"
      and mon = ex_region and score = "0.8" and x = 40 and y = 40
      and frame = ex_frame
      and item' = "ex_watch\<lparr>ocr_fallback := True\<rparr>"
      and ob' = "plain_obs ex_monitor ex_frame 0.5 (1, 1) ''Skip Ad''"] o
    by (simp add: ex_watch_fields plain_obs_fields ex_monitor_def)
qed

text \<open>
  C6. The capture rectangle of a watch has the origin of its configured region, or is
  monitor 1 when no region is set. When a watch fires on a template match, the pointer
  is moved to the origin of the capture rectangle plus the match location plus half the
  width and half the height of the template (integer halves, rounded down), and every
  pointer move the tick of a watch makes has that target for the location with which the
  watch was found. A watch created from a decoded image has the width and height of that
  image. For a 20 by 20 template matched at (40, 40) in the region (0, 0, 100, 100) the
  target is (50, 50).
\<close>

theorem match_center:
  "(select_mon item ob = Returns mon \<longrightarrow>
      (case region item of
         Some (rx, ry, rw, rh) \<Rightarrow> m_left mon = rx \<and> m_top mon = ry
       | None \<Rightarrow> monitors_1 ob = Returns mon))
   \<and> (template item = Some t \<and> select_mon item ob = Returns mon \<and> grab_out ob = Returns frame
        \<and> cvtColor_out ob = Returns () \<and> match_out ob = Returns (score, x, y)
        \<and> threshold item \<le> score \<and> \<not> triggered item \<and> move_mouse item \<longrightarrow>
        filter is_move (snd (process_item lang item ob)) =
          [MoveTo (m_left mon + x + int (w item) div 2)
                  (m_top mon + y + int (h item) div 2) (mouse_speed item)])
   \<and> (MoveTo cx cy d \<in> set (snd (process_item lang item ob)) \<longrightarrow>
        (\<exists>mon' x' y' evs. detect lang item ob = (Returns (Some (mon', True, x', y')), evs)
           \<and> cx = m_left mon' + x' + int (w item) div 2
           \<and> cy = m_top mon' + y' + int (h item) div 2))
   \<and> w (ImageWatch_init p (Some t)) = cols t \<and> h (ImageWatch_init p (Some t)) = rows t"
proof (intro conjI impI)
  assume "select_mon item ob = Returns mon"
  then show "case region item of
         Some (rx, ry, rw, rh) \<Rightarrow> m_left mon = rx \<and> m_top mon = ry
       | None \<Rightarrow> monitors_1 ob = Returns mon"
    by (auto simp: select_mon_def split: option.splits)
next
  assume a: "template item = Some t \<and> select_mon item ob = Returns mon \<and> grab_out ob = Returns frame
        \<and> cvtColor_out ob = Returns () \<and> match_out ob = Returns (score, x, y)
        \<and> threshold item \<le> score \<and> \<not> triggered item \<and> move_mouse item"
  then have "detect lang item ob =
      (Returns (Some (mon, True, x, y)), [Grab mon, CvtColor, MatchTemplate (mask item \<noteq> None)])"
    using detect_reached[of item t ob mon frame score x y lang] by simp
  with a show "filter is_move (snd (process_item lang item ob)) =
          [MoveTo (m_left mon + x + int (w item) div 2)
                  (m_top mon + y + int (h item) div 2) (mouse_speed item)]"
    by (simp add: process_item_moves)
next
  assume "MoveTo cx cy d \<in> set (snd (process_item lang item ob))"
  then have m: "MoveTo cx cy d \<in> set (filter is_move (snd (process_item lang item ob)))" by simp
  obtain r evs where dd: "detect lang item ob = (r, evs)" by (cases "detect lang item ob")
  from m dd show "\<exists>mon' x' y' evs. detect lang item ob = (Returns (Some (mon', True, x', y')), evs)
           \<and> cx = m_left mon' + x' + int (w item) div 2
           \<and> cy = m_top mon' + y' + int (h item) div 2"
    unfolding process_item_moves
    by (auto split: outcome.splits option.splits if_splits)
next
  show "w (ImageWatch_init p (Some t)) = cols t" by (simp add: ImageWatch_init_def)
next
  show "h (ImageWatch_init p (Some t)) = rows t" by (simp add: ImageWatch_init_def)
qed

theorem match_center_witness:
  "select_mon ex_watch (plain_obs ex_monitor ex_frame 0.85 (40, 40) '''') = Returns ex_region
   \<and> region ex_watch = Some (0, 0, 100, 100)
   \<and> cols \<lparr> rows = 20, cols = 20 \<rparr> = w ex_watch
   \<and> match_out (plain_obs ex_monitor ex_frame 0.85 (40, 40) '''') = Returns (0.85, 40, 40)
   \<and> threshold ex_watch \<le> 0.85 \<and> \<not> triggered ex_watch \<and> move_mouse ex_watch
   \<and> filter is_move (snd (process_item ''eng'' ex_watch (plain_obs ex_monitor ex_frame 0.85 (40, 40) '''')))
        = [MoveTo 50 50 0]
   \<and> MoveTo 50 50 0 \<in> set (snd (process_item ''eng'' ex_watch (plain_obs ex_monitor ex_frame 0.85 (40, 40) '''')))"
  using match_center [where lang = "''eng''" and item = ex_watch
      and ob = "plain_obs ex_monitor ex_frame 0.85 (40, 40) ''''" and t = "\<lparr> rows = 20, cols = 20 \<rparr>"
      and mon = ex_region and score = "0.85" and x = 40 and y = 40
      and frame = ex_frame
      and cx = 50 and cy = 50 and d = 0
      and p = "''skip.png''"]
    ex_process_fire
  by (simp add: ex_watch_fields ex_watch_config plain_obs_fields ex_region_def)

text \<open>
  C7. A watch whose image did not decode has no template and starts with its flag
  false. Whatever the screen, the matcher and the OCR engine give, a tick leaves such a
  watch as it was, makes no action call and no OCR call, and does not find it; hence over
  any number of ticks its flag stays false and no action is ever called, also with the
  OCR fallback enabled.
\<close>

theorem inert_watch:
  "template (ImageWatch_init p None) = None \<and> \<not> triggered (ImageWatch_init p None)
   \<and> (template item = None \<longrightarrow>
        fst (process_item lang item ob) = item
        \<and> filter is_action (snd (process_item lang item ob)) = []
        \<and> filter is_ocr (snd (process_item lang item ob)) = []
        \<and> \<not> found_on lang item ob)
   \<and> (template item = None \<and> \<not> triggered item \<longrightarrow>
        watch_ticks lang item obs = replicate (length obs) (False, []))"
proof (intro conjI impI)
  show "template (ImageWatch_init p None) = None" by (simp add: ImageWatch_init_def)
  show "\<not> triggered (ImageWatch_init p None)" by (simp add: ImageWatch_init_def)
next
  assume t: "template item = None"
  from process_item_inert[OF t, of lang ob]
  show "fst (process_item lang item ob) = item"
    and "filter is_action (snd (process_item lang item ob)) = []"
    and "filter is_ocr (snd (process_item lang item ob)) = []"
    and "\<not> found_on lang item ob" by simp_all
next
  assume "template item = None \<and> \<not> triggered item"
  then show "watch_ticks lang item obs = replicate (length obs) (False, [])"
    using watch_ticks_inert by blast
qed

theorem inert_watch_witness:
  "template ex_inert = None \<and> \<not> triggered ex_inert \<and> ocr_fallback ex_inert \<and> click ex_inert
   \<and> fst (process_item ''eng'' ex_inert (plain_obs ex_monitor ex_screen 1 (0, 0) ''skip'')) = ex_inert
   \<and> filter is_action (snd (process_item ''eng'' ex_inert (plain_obs ex_monitor ex_screen 1 (0, 0) ''skip''))) = []
   \<and> watch_ticks ''eng'' ex_inert
        [plain_obs ex_monitor ex_screen 1 (0, 0) ''skip'', plain_obs ex_monitor ex_screen 0.2 (5, 5) ''skip'',
         plain_obs ex_monitor ex_screen 0.99 (0, 0) ''skip'']
      = [(False, []), (False, []), (False, [])]"
  using inert_watch [where item = ex_inert and lang = "''eng''"
      and ob = "plain_obs ex_monitor ex_screen 1 (0, 0) ''skip''"
      and obs = "[plain_obs ex_monitor ex_screen 1 (0, 0) ''skip'', plain_obs ex_monitor ex_screen 0.2 (5, 5) ''skip'',
         plain_obs ex_monitor ex_screen 0.99 (0, 0) ''skip'']"]
  by (simp add: ex_inert_def ImageWatch_init_def)







text \<open>
  C8, as the code has it. For a watch with the OCR fallback enabled whose score is below
  the threshold: an OCR call that returns a text without the keyword (the empty text is
  one) is no detection and leaves the flag false; an OCR call that raises is caught and
  reported as one error event, makes no action call and leaves the watch as it was,
  flag included. Neither ends the loop: the remaining watches of the tick are processed
  and the tick is followed by the next loop test. The claim as stated fails where it has
  an OCR call that raises set the flag to false: an armed watch stays armed.
\<close>

theorem ocr_failure:
  "(template item = Some t \<and> select_mon item ob = Returns mon \<and> grab_out ob = Returns frame
      \<and> cvtColor_out ob = Returns () \<and> match_out ob = Returns (score, x, y)
      \<and> score < threshold item \<and> ocr_fallback item
      \<and> ocr_out ob = Returns tx \<and> \<not> contains ''skip'' (lower tx) \<longrightarrow>
      process_item lang item ob =
        (item\<lparr>triggered := False\<rparr>,
         [Grab mon, CvtColor, MatchTemplate (mask item \<noteq> None), ImageToString lang]))
   \<and> \<not> contains ''skip'' (lower [])
   \<and> (template item = Some t \<and> select_mon item ob' = Returns mon \<and> grab_out ob' = Returns frame
        \<and> cvtColor_out ob' = Returns () \<and> match_out ob' = Returns (score, x, y)
        \<and> score < threshold item \<and> ocr_fallback item
        \<and> ocr_out ob' = Raises e \<longrightarrow>
        process_item lang item ob' =
          (item, [Grab mon, CvtColor, MatchTemplate (mask item \<noteq> None), ImageToString lang,
                  ErrorEmit e]))
   \<and> for_items lang obf i (item # rest) =
        (fst (process_item lang item (obf i)) # fst (for_items lang obf (Suc i) rest),
         snd (process_item lang item (obf i)) @ snd (for_items lang obf (Suc i) rest))
   \<and> (running_read tk \<longrightarrow>
        fst (snd (run st (tk # ts))) =
          ReadRunning True # snd (tick st tk) @ fst (snd (run (fst (tick st tk)) ts)))"
proof (intro conjI impI)
  assume "template item = Some t \<and> select_mon item ob = Returns mon \<and> grab_out ob = Returns frame
      \<and> cvtColor_out ob = Returns () \<and> match_out ob = Returns (score, x, y)
      \<and> score < threshold item \<and> ocr_fallback item
      \<and> ocr_out ob = Returns tx \<and> \<not> contains ''skip'' (lower tx)"
  then show "process_item lang item ob =
        (item\<lparr>triggered := False\<rparr>,
         [Grab mon, CvtColor, MatchTemplate (mask item \<noteq> None), ImageToString lang])"
    by (elim conjE) (rule process_item_ocr_miss; assumption)
next
  show "\<not> contains ''skip'' (lower [])" by (rule no_skip)
next
  assume "template item = Some t \<and> select_mon item ob' = Returns mon \<and> grab_out ob' = Returns frame
        \<and> cvtColor_out ob' = Returns () \<and> match_out ob' = Returns (score, x, y)
        \<and> score < threshold item \<and> ocr_fallback item
        \<and> ocr_out ob' = Raises e"
  then show "process_item lang item ob' =
          (item, [Grab mon, CvtColor, MatchTemplate (mask item \<noteq> None), ImageToString lang,
                  ErrorEmit e])"
    by (elim conjE) (rule process_item_ocr_raises; assumption)
next
  show "for_items lang obf i (item # rest) =
        (fst (process_item lang item (obf i)) # fst (for_items lang obf (Suc i) rest),
         snd (process_item lang item (obf i)) @ snd (for_items lang obf (Suc i) rest))"
    by (rule for_items_step)
next
  assume "running_read tk"
  then show "fst (snd (run st (tk # ts))) =
          ReadRunning True # snd (tick st tk) @ fst (snd (run (fst (tick st tk)) ts))"
    by (rule run_step)
qed

theorem ocr_failure_counterexample:
  "triggered ex_armed_ocr \<and> ocr_fallback ex_armed_ocr
   \<and> match_out ex_ocr_fails = Returns (0.5, 1, 1) \<and> 0.5 < threshold ex_armed_ocr
   \<and> ocr_out ex_ocr_fails = Raises ''no tesseract''
   \<and> process_item ''eng'' ex_armed_ocr ex_ocr_fails =
       (ex_armed_ocr,
        [Grab ex_region, CvtColor, MatchTemplate False, ImageToString ''eng'', ErrorEmit ''no tesseract''])
   \<and> triggered (fst (process_item ''eng'' ex_armed_ocr ex_ocr_fails))"
  by (simp add: ex_armed_ocr_fields ex_ocr_fails_fields ex_ocr_fails_process)

theorem ocr_failure_witness:
  "template ex_armed_ocr = Some \<lparr> rows = 20, cols = 20 \<rparr> \<and> ocr_fallback ex_armed_ocr
   \<and> triggered ex_armed_ocr \<and> 0.5 < threshold ex_armed_ocr
   \<and> ocr_out (plain_obs ex_monitor ex_frame 0.5 (1, 1) '''') = Returns ''''
   \<and> process_item ''eng'' ex_armed_ocr (plain_obs ex_monitor ex_frame 0.5 (1, 1) '''') =
        (ex_armed_ocr\<lparr>triggered := False\<rparr>,
         [Grab ex_region, CvtColor, MatchTemplate False, ImageToString ''eng''])
   \<and> ocr_out ex_ocr_fails = Raises ''no tesseract''
   \<and> process_item ''eng'' ex_armed_ocr ex_ocr_fails =
        (ex_armed_ocr,
         [Grab ex_region, CvtColor, MatchTemplate False, ImageToString ''eng'', ErrorEmit ''no tesseract''])
   \<and> running_read (ex_tick 0.5 0 0.04)"
proof -
  note T = ocr_failure [where lang = "''eng''" and item = ex_armed_ocr
      and ob = "plain_obs ex_monitor ex_frame 0.5 (1, 1) ''''" and ob' = ex_ocr_fails
      and t = "\<lparr> rows = 20, cols = 20 \<rparr>" and mon = ex_region and score = "0.5" and x = 1 and y = 1
      and frame = ex_frame
      and tx = "''''" and e = "''no tesseract''" and tk = "ex_tick 0.5 0 0.04"]
  have 1: "process_item ''eng'' ex_armed_ocr (plain_obs ex_monitor ex_frame 0.5 (1, 1) '''') =
        (ex_armed_ocr\<lparr>triggered := False\<rparr>,
         [Grab ex_region, CvtColor, MatchTemplate False, ImageToString ''eng''])"
    using T by (simp add: ex_armed_ocr_fields plain_obs_fields no_skip)
  have 2: "process_item ''eng'' ex_armed_ocr ex_ocr_fails =
        (ex_armed_ocr,
         [Grab ex_region, CvtColor, MatchTemplate False, ImageToString ''eng'', ErrorEmit ''no tesseract''])"
    using T by (simp add: ex_armed_ocr_fields ex_ocr_fails_fields)
  have 3: "running_read (ex_tick 0.5 0 0.04)" by (simp add: ex_tick_def)
  from 1 2 3 show ?thesis
    by (simp add: ex_armed_ocr_fields ex_ocr_fails_fields plain_obs_fields)
qed

text \<open>
  C3, as the code has it. The loop compares no sizes: a template larger than the captured
  frame goes to the matcher like any other. When the matcher rejects it by raising, the
  tick is no detection for the watch (no action call, the watch unchanged, flag
  included), the exception is reported as one error event, and the watches after it are
  processed. When the matcher returns a score, the score is compared with the threshold
  as for any template. The claim as stated fails where it has no error event reported:
  for a template 200 wide in a frame 100 wide the matcher's assertion error is reported.
\<close>

theorem oversized_template:
  "(template item = Some t \<and> select_mon item ob = Returns mon \<and> grab_out ob = Returns frame
      \<and> cvtColor_out ob = Returns () \<and> (cols frame < cols t \<or> rows frame < rows t)
      \<and> match_out ob = Raises e \<longrightarrow>
      process_item lang item ob =
        (item, [Grab mon, CvtColor, MatchTemplate (mask item \<noteq> None), ErrorEmit e]))
   \<and> (template item = Some t \<and> select_mon item ob' = Returns mon \<and> grab_out ob' = Returns frame
        \<and> cvtColor_out ob' = Returns () \<and> (cols frame < cols t \<or> rows frame < rows t)
        \<and> match_out ob' = Returns (score, x, y) \<and> threshold item \<le> score \<longrightarrow>
        found_on lang item ob')
   \<and> for_items lang obf i (item # rest) =
        (fst (process_item lang item (obf i)) # fst (for_items lang obf (Suc i) rest),
         snd (process_item lang item (obf i)) @ snd (for_items lang obf (Suc i) rest))"
proof (intro conjI impI)
  assume "template item = Some t \<and> select_mon item ob = Returns mon \<and> grab_out ob = Returns frame
      \<and> cvtColor_out ob = Returns () \<and> (cols frame < cols t \<or> rows frame < rows t)
      \<and> match_out ob = Raises e"
  then show "process_item lang item ob =
        (item, [Grab mon, CvtColor, MatchTemplate (mask item \<noteq> None), ErrorEmit e])"
    using process_item_match_raises by blast
next
  assume "template item = Some t \<and> select_mon item ob' = Returns mon \<and> grab_out ob' = Returns frame
        \<and> cvtColor_out ob' = Returns () \<and> (cols frame < cols t \<or> rows frame < rows t)
        \<and> match_out ob' = Returns (score, x, y) \<and> threshold item \<le> score"
  then show "found_on lang item ob'"
    using found_on_reached by blast
next
  show "for_items lang obf i (item # rest) =
        (fst (process_item lang item (obf i)) # fst (for_items lang obf (Suc i) rest),
         snd (process_item lang item (obf i)) @ snd (for_items lang obf (Suc i) rest))"
    by (rule for_items_step)
qed

theorem oversized_template_counterexample:
  "template ex_wide = Some \<lparr> rows = 10, cols = 200 \<rparr>
   \<and> grab_out ex_match_rejects = Returns ex_frame
   \<and> cols ex_frame < cols \<lparr> rows = 10, cols = 200 \<rparr>
   \<and> match_out ex_match_rejects = Raises ''assertion failed''
   \<and> process_item ''eng'' ex_wide ex_match_rejects =
       (ex_wide, [Grab ex_region, CvtColor, MatchTemplate False, ErrorEmit ''assertion failed''])
   \<and> filter is_error (snd (process_item ''eng'' ex_wide ex_match_rejects))
       = [ErrorEmit ''assertion failed'']"
  by (simp add: ex_wide_fields ex_match_rejects_fields ex_match_rejects_process ex_frame_def)

theorem oversized_template_witness:
  "template ex_wide = Some \<lparr> rows = 10, cols = 200 \<rparr>
   \<and> select_mon ex_wide ex_match_rejects = Returns ex_region
   \<and> grab_out ex_match_rejects = Returns ex_frame
   \<and> cvtColor_out ex_match_rejects = Returns ()
   \<and> cols ex_frame < cols \<lparr> rows = 10, cols = 200 \<rparr>
   \<and> match_out ex_match_rejects = Raises ''assertion failed''
   \<and> process_item ''eng'' ex_wide ex_match_rejects =
       (ex_wide, [Grab ex_region, CvtColor, MatchTemplate False, ErrorEmit ''assertion failed''])
   \<and> match_out (plain_obs ex_monitor ex_frame 0.9 (0, 0) '''') = Returns (0.9, 0, 0)
   \<and> threshold ex_wide \<le> 0.9
   \<and> found_on ''eng'' ex_wide (plain_obs ex_monitor ex_frame 0.9 (0, 0) '''')"
proof -
  note T = oversized_template [where lang = "''eng''" and item = ex_wide and ob = ex_match_rejects
      and ob' = "plain_obs ex_monitor ex_frame 0.9 (0, 0) ''''"
      and t = "\<lparr> rows = 10, cols = 200 \<rparr>" and mon = ex_region and frame = ex_frame
      and e = "''assertion failed''" and score = "0.9" and x = 0 and y = 0]
  have c: "cols ex_frame < cols \<lparr> rows = 10, cols = 200 \<rparr>" by (simp add: ex_frame_def)
  have 1: "process_item ''eng'' ex_wide ex_match_rejects =
       (ex_wide, [Grab ex_region, CvtColor, MatchTemplate False, ErrorEmit ''assertion failed''])"
    using T c by (simp add: ex_wide_fields ex_match_rejects_fields)
  have 2: "found_on ''eng'' ex_wide (plain_obs ex_monitor ex_frame 0.9 (0, 0) '''')"
    using T c by (simp add: ex_wide_fields plain_obs_fields)
  from 1 2 c show ?thesis
    by (simp add: ex_wide_fields ex_match_rejects_fields plain_obs_fields)
qed

text \<open>
  C9, as the code has it. The flag is read by the loop test at the head of an iteration
  and nowhere else: an iteration whose test passed runs in full, every watch and the
  pacing sleep, without reading the flag again, and only then comes the next test. A
  test that reads the flag false ends \<open>run\<close> at once, with no further call and the
  watches untouched. So \<open>run\<close> returns exactly when some loop test reads false, the
  number of reads is the number of iterations run plus the final read, and the last
  thing \<open>run\<close> does is that read. The claim as stated fails where it has a second
  check at the top of the end-of-tick sleep: a stop requested during a tick is seen only
  after the sleep of that tick.
\<close>

theorem stop_at_loop_test:
  "(running_read t \<longrightarrow>
      fst (snd (run st (t # ts))) =
        ReadRunning True # snd (tick st t) @ fst (snd (run (fst (tick st t)) ts)))
   \<and> filter is_read (snd (tick st t)) = []
   \<and> (\<not> running_read t' \<longrightarrow> run st (t' # ts) = (st, [ReadRunning False], True))
   \<and> snd (snd (run st tks)) = (\<exists>k \<in> set tks. \<not> running_read k)
   \<and> length (filter is_read (fst (snd (run st tks)))) =
        length (takeWhile running_read tks) + (if snd (snd (run st tks)) then 1 else 0)
   \<and> (snd (snd (run st tks)) \<longrightarrow> last (fst (snd (run st tks))) = ReadRunning False)"
proof (intro conjI impI)
  assume "running_read t"
  then show "fst (snd (run st (t # ts))) =
        ReadRunning True # snd (tick st t) @ fst (snd (run (fst (tick st t)) ts))"
    by (rule run_step)
next
  show "filter is_read (snd (tick st t)) = []" by (rule tick_no_read)
next
  assume "\<not> running_read t'"
  then show "run st (t' # ts) = (st, [ReadRunning False], True)" by (rule run_stop)
next
  show "snd (snd (run st tks)) = (\<exists>k \<in> set tks. \<not> running_read k)" by (rule run_returns_iff)
next
  show "length (filter is_read (fst (snd (run st tks)))) =
        length (takeWhile running_read tks) + (if snd (snd (run st tks)) then 1 else 0)"
    by (rule run_read_count)
next
  assume "snd (snd (run st tks))"
  then show "last (fst (snd (run st tks))) = ReadRunning False" by (rule run_last)
qed

theorem stop_check_counterexample:
  "running_read (ex_tick 0.5 0 0.04) \<and> \<not> running_read ex_stop
   \<and> fst (snd (run ex_thread [ex_tick 0.5 0 0.04, ex_stop])) =
       [ReadRunning True, Grab ex_region, CvtColor, MatchTemplate False, Sleep 0.06,
        ReadRunning False]
   \<and> length (filter is_read (ReadRunning True # snd (tick ex_thread (ex_tick 0.5 0 0.04)))) = 1"
proof -
  have a: "running_read (ex_tick 0.5 0 0.04)" by (simp add: ex_tick_fields)
  have b: "\<not> running_read ex_stop" by (simp add: ex_stop_def)
  have c: "fst (snd (run ex_thread [ex_tick 0.5 0 0.04, ex_stop])) =
       [ReadRunning True, Grab ex_region, CvtColor, MatchTemplate False, Sleep 0.06,
        ReadRunning False]"
    unfolding run_step[OF a] ex_tick_trace using b by simp
  from a b c show ?thesis by (simp add: tick_no_read del: run.simps)
qed

theorem stop_at_loop_test_witness:
  "running_read (ex_tick 0.5 0 0.04) \<and> \<not> running_read ex_stop
   \<and> run ex_thread [ex_stop] = (ex_thread, [ReadRunning False], True)
   \<and> snd (snd (run ex_thread [ex_tick 0.5 0 0.04, ex_stop]))
   \<and> length (filter is_read (fst (snd (run ex_thread [ex_tick 0.5 0 0.04, ex_stop])))) = 2
   \<and> last (fst (snd (run ex_thread [ex_tick 0.5 0 0.04, ex_stop]))) = ReadRunning False"
proof -
  note T = stop_at_loop_test [where st = ex_thread and t = "ex_tick 0.5 0 0.04" and t' = ex_stop
      and ts = "[]" and tks = "[ex_tick 0.5 0 0.04, ex_stop]"]
  have a: "running_read (ex_tick 0.5 0 0.04)" by (simp add: ex_tick_fields)
  have b: "\<not> running_read ex_stop" by (simp add: ex_stop_def)
  from T b have 1: "run ex_thread [ex_stop] = (ex_thread, [ReadRunning False], True)" by blast
  from T a b have 2: "snd (snd (run ex_thread [ex_tick 0.5 0 0.04, ex_stop]))" by simp
  from T a b 2
  have 3: "length (filter is_read (fst (snd (run ex_thread [ex_tick 0.5 0 0.04, ex_stop])))) = 2"
    by simp
  from T 2 have 4: "last (fst (snd (run ex_thread [ex_tick 0.5 0 0.04, ex_stop]))) = ReadRunning False"
    by blast
  from a b 1 2 3 4 show ?thesis by simp
qed

end
